theory Spec2Isabelle
  imports Main
begin

section \<open>JavaScript values\<close>

text \<open>
  The board state of \<^verbatim>\<open>src/src/App.js\<close> holds plain JavaScript data: elements are
  object literals, snapshots are arrays of elements, payloads arrive as parsed JSON.
  A value is a tree; an object is the list of its own properties in insertion order.
  Numbers are the integers (the reducer stores coordinates and never computes with them).
\<close>

datatype jsval =
    Undefined
  | Null
  | Bool bool
  | Num int
  | Str string
  | Arr "jsval list"
  | Obj "(string \<times> jsval) list"

text \<open>What the reducer can throw: a \<^verbatim>\<open>TypeError\<close> of the language, or its own
  \<^verbatim>\<open>new Error(message)\<close>.\<close>

datatype error = TypeError | Error string

text \<open>JavaScript truthiness (\<^verbatim>\<open>!v\<close>, \<^verbatim>\<open>a && b\<close>, \<^verbatim>\<open>a || b\<close>).\<close>

fun truthy :: "jsval \<Rightarrow> bool" where
  "truthy Undefined = False"
| "truthy Null = False"
| "truthy (Bool b) = b"
| "truthy (Num n) = (n \<noteq> 0)"
| "truthy (Str s) = (s \<noteq> [])"
| "truthy (Arr xs) = True"
| "truthy (Obj kvs) = True"

text \<open>
  A property read \<^verbatim>\<open>v.k\<close> with one of the fixed names the source uses (\<^verbatim>\<open>type\<close>,
  \<^verbatim>\<open>points\<close>, \<^verbatim>\<open>x1\<close>, \<^verbatim>\<open>y1\<close>, \<^verbatim>\<open>stroke\<close>, \<^verbatim>\<open>fill\<close>, \<^verbatim>\<open>size\<close>, \<^verbatim>\<open>length\<close>). Reading
  from \<^verbatim>\<open>undefined\<close> or \<^verbatim>\<open>null\<close> throws; a missing property is \<^verbatim>\<open>undefined\<close>; arrays and
  strings own \<^verbatim>\<open>length\<close> and none of the other names.
\<close>

fun get :: "jsval \<Rightarrow> string \<Rightarrow> error + jsval" where
  "get Undefined k = Inl TypeError"
| "get Null k = Inl TypeError"
| "get (Obj kvs) k = Inr (case map_of kvs k of Some v \<Rightarrow> v | None \<Rightarrow> Undefined)"
| "get (Arr xs) k = Inr (if k = ''length'' then Num (int (length xs)) else Undefined)"
| "get (Str s) k = Inr (if k = ''length'' then Num (int (length s)) else Undefined)"
| "get (Bool b) k = Inr Undefined"
| "get (Num n) k = Inr Undefined"

text \<open>\<^verbatim>\<open>Array.isArray(v)\<close>.\<close>

fun isArray :: "jsval \<Rightarrow> bool" where
  "isArray (Arr xs) = True"
| "isArray v = False"

text \<open>\<^verbatim>\<open>xs[i]\<close> on an array: \<^verbatim>\<open>undefined\<close> outside \<^verbatim>\<open>0 .. length - 1\<close>.\<close>

definition at_index :: "jsval list \<Rightarrow> int \<Rightarrow> jsval" where
  "at_index xs i = (if 0 \<le> i \<and> i < int (length xs) then xs ! nat i else Undefined)"

text \<open>\<^verbatim>\<open>xs.slice(0, e)\<close>: a negative end counts from the back, an end past the length
  is the length.\<close>

definition slice0 :: "'a list \<Rightarrow> int \<Rightarrow> 'a list" where
  "slice0 xs e =
     (if e < 0 then take (nat (int (length xs) + e)) xs else take (nat e) xs)"

text \<open>Decimal rendering of an array index, the property key of an array entry.\<close>

fun string_of_digit :: "nat \<Rightarrow> char" where
  "string_of_digit n = char_of (48 + n)"

function string_of_nat :: "nat \<Rightarrow> string" where
  "string_of_nat n =
     (if n < 10 then [string_of_digit n]
      else string_of_nat (n div 10) @ [string_of_digit (n mod 10)])"
  by pat_completeness auto
termination
  by (relation "measure id") auto

text \<open>
  The own enumerable properties an object spread \<^verbatim>\<open>{ ...v }\<close> copies: those of an
  object, the indexed entries of an array, the indexed characters of a string, nothing
  for the other primitives.
\<close>

fun spread :: "jsval \<Rightarrow> (string \<times> jsval) list" where
  "spread (Obj kvs) = kvs"
| "spread (Arr xs) = zip (map string_of_nat [0..<length xs]) xs"
| "spread (Str s) = zip (map string_of_nat [0..<length s]) (map (\<lambda>c. Str [c]) s)"
| "spread v = []"

text \<open>The assignment \<^verbatim>\<open>o.k = v\<close> on an object: an existing property keeps its place,
  a new one goes last.\<close>

fun set_prop :: "string \<Rightarrow> 'v \<Rightarrow> (string \<times> 'v) list \<Rightarrow> (string \<times> 'v) list" where
  "set_prop k v [] = [(k, v)]"
| "set_prop k v ((k', v') # kvs) =
     (if k' = k then (k, v) # kvs else (k', v') # set_prop k v kvs)"

text \<open>\<^verbatim>\<open>xs.filter(cb)\<close> and \<^verbatim>\<open>xs.map(cb)\<close> with a callback that may throw: the first
  throw, in array order, ends the call.\<close>

fun filter_cb :: "(jsval \<Rightarrow> error + jsval) \<Rightarrow> jsval list \<Rightarrow> error + jsval list" where
  "filter_cb cb [] = Inr []"
| "filter_cb cb (x # xs) =
     (case cb x of
        Inl e \<Rightarrow> Inl e
      | Inr r \<Rightarrow>
          (case filter_cb cb xs of
             Inl e \<Rightarrow> Inl e
           | Inr ys \<Rightarrow> Inr (if truthy r then x # ys else ys)))"

fun map_cb :: "(jsval \<Rightarrow> error + jsval) \<Rightarrow> jsval list \<Rightarrow> error + jsval list" where
  "map_cb cb [] = Inr []"
| "map_cb cb (x # xs) =
     (case cb x of
        Inl e \<Rightarrow> Inl e
      | Inr y \<Rightarrow> (case map_cb cb xs of Inl e \<Rightarrow> Inl e | Inr ys \<Rightarrow> Inr (y # ys)))"

section \<open>Constants\<close>

text \<open>
  Modelled from the spec: the module \<^verbatim>\<open>constants\<close> (\<^verbatim>\<open>TOOL_ITEMS\<close>,
  \<^verbatim>\<open>TOOL_ACTION_TYPES\<close>, \<^verbatim>\<open>BOARD_ACTIONS\<close>) is not among the sources. The spec names
  the tools line, rectangle, circle, arrow, brush, eraser and text, and writes the type
  tag of a line as \<^verbatim>\<open>"line"\<close>; the tags are taken as these words.
\<close>

definition LINE :: string where "LINE = ''line''"
definition RECTANGLE :: string where "RECTANGLE = ''rectangle''"
definition CIRCLE :: string where "CIRCLE = ''circle''"
definition ARROW :: string where "ARROW = ''arrow''"
definition BRUSH :: string where "BRUSH = ''brush''"
definition ERASER :: string where "ERASER = ''eraser''"
definition TEXT :: string where "TEXT = ''text''"

text \<open>The recognized element types of the spec's data model: the closed set
  line, rectangle, circle, arrow, freehand brush, text.\<close>

definition recognized_types :: "string list" where
  "recognized_types = [LINE, RECTANGLE, CIRCLE, ARROW, BRUSH, TEXT]"

definition has_recognized_type :: "jsval \<Rightarrow> bool" where
  "has_recognized_type el =
     (case el of
        Obj kvs \<Rightarrow>
          (case map_of kvs ''type'' of
             Some (Str t) \<Rightarrow> t \<in> set recognized_types
           | _ \<Rightarrow> False)
      | _ \<Rightarrow> False)"

section \<open>The valid-elements filter\<close>

text \<open>
  The callback \<^verbatim>\<open>el => el && el.type\<close> of \<^verbatim>\<open>App.js\<close> lines 153, 162, 263, 333, 594,
  700 and 747, and the filter built from it.
\<close>

definition el_and_type :: "jsval \<Rightarrow> error + jsval" where
  "el_and_type el = (if truthy el then get el ''type'' else Inr el)"

definition validElements :: "jsval list \<Rightarrow> error + jsval list" where
  "validElements xs = filter_cb el_and_type xs"

text \<open>An element the filter keeps: an object whose own \<^verbatim>\<open>type\<close> is truthy.\<close>

definition has_type :: "jsval \<Rightarrow> bool" where
  "has_type el =
     (case el of
        Obj kvs \<Rightarrow> (case map_of kvs ''type'' of Some t \<Rightarrow> truthy t | None \<Rightarrow> False)
      | _ \<Rightarrow> False)"


section \<open>The board state and its reducer\<close>

text \<open>\<^verbatim>\<open>TOOL_ACTION_TYPES\<close>: the phase of the drawing state machine.\<close>

datatype tool_action = NONE | DRAWING | ERASING | WRITING

text \<open>
  The state of \<^verbatim>\<open>boardReducer\<close> (\<^verbatim>\<open>initialBoardState\<close>, \<^verbatim>\<open>App.js\<close> line 803).
  \<^verbatim>\<open>elements\<close> is an array in every state the reducer is given (it calls
  \<^verbatim>\<open>state.elements.filter\<close> and spreads it); \<^verbatim>\<open>history\<close> is an array of snapshots, or
  absent (\<open>None\<close>, the case the guards \<^verbatim>\<open>!state.history\<close> and \<^verbatim>\<open>state.history || []\<close>
  provide for); a snapshot is any value, since undo and redo test it with
  \<^verbatim>\<open>Array.isArray\<close>.
\<close>

record board_state =
  activeToolItem :: string
  toolActionType :: tool_action
  elements :: "jsval list"
  history :: "jsval list option"
  index :: int
  canvasId :: string
  isUserLoggedIn :: bool

definition initialBoardState :: "bool \<Rightarrow> board_state" where
  "initialBoardState loggedIn =
     \<lparr>activeToolItem = BRUSH, toolActionType = NONE, elements = [],
      history = Some [Arr []], index = 0, canvasId = [], isUserLoggedIn = loggedIn\<rparr>"

text \<open>\<^verbatim>\<open>BOARD_ACTIONS\<close> with their payloads.\<close>

datatype action =
    CHANGE_TOOL string
  | CHANGE_ACTION_TYPE tool_action
  | DRAW_DOWN jsval jsval jsval jsval jsval
  | DRAW_MOVE jsval jsval
  | DRAW_UP
  | ERASE jsval jsval
  | CHANGE_TEXT jsval
  | UNDO
  | REDO
  | SET_INITIAL_ELEMENTS "jsval list option"
  | SET_CANVAS_ID string
  | SET_CANVAS_ELEMENTS "jsval list"
  | SET_HISTORY "jsval list option"
  | SET_USER_LOGIN_STATUS bool

text \<open>
  Modelled from the spec: \<^verbatim>\<open>createElement\<close> and \<^verbatim>\<open>isPointNearElement\<close> are imported
  from \<^verbatim>\<open>utils/element\<close>, which is not among the sources. The spec gives
  \<^verbatim>\<open>createElement(index, x1, y1, x2, y2, {type, stroke, fill, size})\<close> as the constructor of
  an element and \<^verbatim>\<open>isPointNearElement(element, px, py)\<close> as a side-effect-free boolean
  test. Both are parameters of the reducer: total functions of these arguments, with
  nothing else assumed of them.
\<close>

type_synonym create_element =
  "int \<Rightarrow> jsval \<Rightarrow> jsval \<Rightarrow> jsval \<Rightarrow> jsval \<Rightarrow> jsval \<Rightarrow> jsval"

type_synonym point_near = "jsval \<Rightarrow> jsval \<Rightarrow> jsval \<Rightarrow> bool"

text \<open>The options object \<^verbatim>\<open>{ type, stroke, fill, size }\<close> handed to \<^verbatim>\<open>createElement\<close>.\<close>

definition element_options :: "string \<Rightarrow> jsval \<Rightarrow> jsval \<Rightarrow> jsval \<Rightarrow> jsval" where
  "element_options tool stroke fill sz =
     Obj [(''type'', Str tool), (''stroke'', stroke), (''fill'', fill), (''size'', sz)]"

text \<open>Sequencing of steps that may throw.\<close>

definition and_then :: "error + 'a \<Rightarrow> ('a \<Rightarrow> error + 'b) \<Rightarrow> error + 'b" where
  "and_then m f = (case m of Inl e \<Rightarrow> Inl e | Inr x \<Rightarrow> f x)"

text \<open>The entries of an array value.\<close>

fun items :: "jsval \<Rightarrow> jsval list" where
  "items (Arr xs) = xs"
| "items v = []"

text \<open>
  The deep copy of one element (\<^verbatim>\<open>App.js\<close> lines 598-606, 701-707, 748-754):
  \<^verbatim>\<open>const copy = { ...el }; if (el.points && Array.isArray(el.points))
  copy.points = el.points.map(p => ({ ...p })); return copy;\<close>
\<close>

definition copy_point :: "jsval \<Rightarrow> jsval" where
  "copy_point p = Obj (spread p)"

definition copy_element :: "jsval \<Rightarrow> error + jsval" where
  "copy_element el =
     (let copy = spread el in
      and_then (get el ''points'') (\<lambda>points.
        if truthy points \<and> isArray points
        then Inr (Obj (set_prop ''points'' (Arr (map copy_point (items points))) copy))
        else Inr (Obj copy)))"

text \<open>Case \<^verbatim>\<open>DRAW_DOWN\<close> (lines 534-553).\<close>

definition draw_down ::
  "create_element \<Rightarrow> board_state \<Rightarrow> jsval \<Rightarrow> jsval \<Rightarrow> jsval \<Rightarrow> jsval \<Rightarrow> jsval \<Rightarrow> board_state" where
  "draw_down createElement state clientX clientY stroke fill sz =
     (let newElement =
            createElement (int (length (elements state))) clientX clientY clientX clientY
              (element_options (activeToolItem state) stroke fill sz);
          prevElements = elements state
      in state\<lparr>toolActionType := (if activeToolItem state = TEXT then WRITING else DRAWING),
               elements := prevElements @ [newElement]\<rparr>)"

text \<open>The array spread \<^verbatim>\<open>[...v]\<close>: the entries of an array, the characters of a string;
  anything else is not iterable and throws.\<close>

fun iterate :: "jsval \<Rightarrow> error + jsval list" where
  "iterate (Arr xs) = Inr xs"
| "iterate (Str s) = Inr (map (\<lambda>c. Str [c]) s)"
| "iterate v = Inl TypeError"

text \<open>The assignment \<^verbatim>\<open>target.points = v\<close>. The reducer makes it on an element whose
  \<^verbatim>\<open>type\<close> it has just read as a string, which only an object has. On \<^verbatim>\<open>undefined\<close>
  and \<^verbatim>\<open>null\<close> it throws, and module code is strict, so it throws on a primitive too;
  an array would take the property, which this value type does not record.\<close>

fun assign_points :: "jsval \<Rightarrow> jsval \<Rightarrow> error + jsval" where
  "assign_points (Obj kvs) v = Inr (Obj (set_prop ''points'' v kvs))"
| "assign_points (Arr xs) v = Inr (Arr xs)"
| "assign_points target v = Inl TypeError"

text \<open>
  Case \<^verbatim>\<open>DRAW_MOVE\<close> (lines 554-591). \<^verbatim>\<open>const { type } = newElements[index]\<close> throws a
  \<^verbatim>\<open>TypeError\<close> when there is no last element or it is \<^verbatim>\<open>null\<close>; the \<^verbatim>\<open>switch\<close> compares
  \<^verbatim>\<open>type\<close> with the four shape tags, then with the brush tag, and throws in its default.
  The new shape takes its type from \<^verbatim>\<open>state.activeToolItem\<close>.
  The brush case assigns to \<^verbatim>\<open>points\<close> of the last element object itself; here the
  changed element is put into the returned collection, and what else holds that object
  is the matter of the store model below (\<open>draw_move_st\<close>).
\<close>

definition draw_move ::
  "create_element \<Rightarrow> board_state \<Rightarrow> jsval \<Rightarrow> jsval \<Rightarrow> error + board_state" where
  "draw_move createElement state clientX clientY =
     (let newElements = elements state;
          idx = int (length (elements state)) - 1;
          last_el = at_index newElements idx
      in and_then (get last_el ''type'') (\<lambda>ty.
           if ty = Str LINE \<or> ty = Str RECTANGLE \<or> ty = Str CIRCLE \<or> ty = Str ARROW
           then
             and_then (get last_el ''x1'') (\<lambda>x1.
             and_then (get last_el ''y1'') (\<lambda>y1.
             and_then (get last_el ''stroke'') (\<lambda>stroke.
             and_then (get last_el ''fill'') (\<lambda>fill.
             and_then (get last_el ''size'') (\<lambda>sz.
               let newElement =
                     createElement idx x1 y1 clientX clientY
                       (element_options (activeToolItem state) stroke fill sz)
               in Inr (state\<lparr>elements := newElements[nat idx := newElement]\<rparr>))))))
           else if ty = Str BRUSH
           then
             and_then (get last_el ''points'') (\<lambda>points.
             and_then (iterate points) (\<lambda>ps.
             and_then (assign_points last_el
                         (Arr (ps @ [Obj [(''x'', clientX), (''y'', clientY)]]))) (\<lambda>el'.
               Inr (state\<lparr>elements := newElements[nat idx := el']\<rparr>))))
           else Inl (Error ''Type not recognized'')))"

text \<open>
  Case \<^verbatim>\<open>DRAW_UP\<close> (lines 592-618): filter, deep-copy, truncate the history after
  \<^verbatim>\<open>index\<close>, append the copy, advance \<^verbatim>\<open>index\<close>. The live elements are not assigned.
\<close>

definition draw_up :: "board_state \<Rightarrow> error + board_state" where
  "draw_up state =
     and_then (validElements (elements state)) (\<lambda>validEls.
     and_then (map_cb copy_element validEls) (\<lambda>elementsCopy.
       let currentHistory = (case history state of Some h \<Rightarrow> h | None \<Rightarrow> []);
           newHistory = slice0 currentHistory (index state + 1) @ [Arr elementsCopy]
       in Inr (state\<lparr>history := Some newHistory, index := index state + 1\<rparr>)))"

text \<open>
  Case \<^verbatim>\<open>ERASE\<close> (lines 619-640). The filter callback is
  \<^verbatim>\<open>if (!element || !element.type) return false; return !isPointNearElement(element,
  clientX, clientY);\<close> and the filtered array itself is both the new live collection and
  the pushed snapshot.
\<close>

definition erase_keep :: "point_near \<Rightarrow> jsval \<Rightarrow> jsval \<Rightarrow> jsval \<Rightarrow> error + jsval" where
  "erase_keep isPointNearElement clientX clientY element =
     (if \<not> truthy element then Inr (Bool False)
      else and_then (get element ''type'') (\<lambda>ty.
        if \<not> truthy ty then Inr (Bool False)
        else Inr (Bool (\<not> isPointNearElement element clientX clientY))))"

definition erase :: "point_near \<Rightarrow> board_state \<Rightarrow> jsval \<Rightarrow> jsval \<Rightarrow> error + board_state" where
  "erase isPointNearElement state clientX clientY =
     and_then (filter_cb (erase_keep isPointNearElement clientX clientY) (elements state))
       (\<lambda>newElements.
          let currentHistory = (case history state of Some h \<Rightarrow> h | None \<Rightarrow> []);
              newHistory = slice0 currentHistory (index state + 1) @ [Arr newElements]
          in Inr (state\<lparr>elements := newElements, history := Some newHistory,
                         index := index state + 1\<rparr>))"

text \<open>Case \<^verbatim>\<open>CHANGE_TEXT\<close> (lines 641-669).\<close>

definition change_text :: "board_state \<Rightarrow> jsval \<Rightarrow> board_state" where
  "change_text state txt =
     (let elementIndex = int (length (elements state)) - 1 in
      if elementIndex < 0 then state
      else
        let element = at_index (elements state) elementIndex in
        if \<not> truthy element \<or> get element ''type'' \<noteq> Inr (Str TEXT) then state
        else
          let newElements =
                (elements state)[nat elementIndex := Obj (set_prop ''text'' txt (spread element))];
              currentHistory = (case history state of Some h \<Rightarrow> h | None \<Rightarrow> []);
              newHistory = slice0 currentHistory (index state + 1) @ [Arr newElements]
          in state\<lparr>toolActionType := NONE, elements := newElements,
                   history := Some newHistory, index := index state + 1\<rparr>)"

text \<open>
  Case \<^verbatim>\<open>UNDO\<close> (lines 670-714). The recovery branch installs \<^verbatim>\<open>state.history[0]\<close>
  itself, neither filtered nor copied.
\<close>

definition undo :: "board_state \<Rightarrow> error + board_state" where
  "undo state =
     (case history state of
        None \<Rightarrow> Inr state
      | Some h \<Rightarrow>
          if length h = 0 then Inr state
          else if index state \<le> 0 then Inr state
          else
            let previousIndex = index state - 1;
                previousElements = at_index h previousIndex
            in if \<not> truthy previousElements \<or> \<not> isArray previousElements
               then (if truthy (at_index h 0) \<and> isArray (at_index h 0)
                     then Inr (state\<lparr>elements := items (at_index h 0), index := 0\<rparr>)
                     else Inr state)
               else
                 and_then (validElements (items previousElements)) (\<lambda>validEls.
                 and_then (map_cb copy_element validEls) (\<lambda>elementsCopy.
                   Inr (state\<lparr>elements := elementsCopy, index := previousIndex\<rparr>))))"

text \<open>
  \<^verbatim>\<open>JSON.parse(JSON.stringify(v))\<close> on a value inside an array: \<^verbatim>\<open>undefined\<close> becomes
  \<^verbatim>\<open>null\<close> as an array entry and is dropped as a property value; the rest is rebuilt.
\<close>

fun json_copy :: "jsval \<Rightarrow> jsval" where
  "json_copy Undefined = Null"
| "json_copy (Arr xs) = Arr (map json_copy xs)"
| "json_copy (Obj kvs) =
     Obj (map (\<lambda>kv. (fst kv, json_copy (snd kv))) (filter (\<lambda>kv. snd kv \<noteq> Undefined) kvs))"
| "json_copy v = v"

text \<open>
  Case \<^verbatim>\<open>REDO\<close> (lines 715-761). The recovery branch installs a JSON copy of the last
  snapshot of the history.
\<close>

definition redo :: "board_state \<Rightarrow> error + board_state" where
  "redo state =
     (case history state of
        None \<Rightarrow> Inr state
      | Some h \<Rightarrow>
          if length h = 0 then Inr state
          else if index state \<ge> int (length h) - 1 then Inr state
          else
            let nextIndex = index state + 1;
                nextElements = at_index h nextIndex
            in if \<not> truthy nextElements \<or> \<not> isArray nextElements
               then (let lastIndex = int (length h) - 1 in
                     if truthy (at_index h lastIndex) \<and> isArray (at_index h lastIndex)
                     then Inr (state\<lparr>elements := items (json_copy (at_index h lastIndex)),
                                      index := lastIndex\<rparr>)
                     else Inr state)
               else
                 and_then (validElements (items nextElements)) (\<lambda>validEls.
                 and_then (map_cb copy_element validEls) (\<lambda>elementsCopy.
                   Inr (state\<lparr>elements := elementsCopy, index := nextIndex\<rparr>))))"

text \<open>\<^verbatim>\<open>boardReducer\<close> (lines 521-799).\<close>

fun boardReducer ::
  "create_element \<Rightarrow> point_near \<Rightarrow> board_state \<Rightarrow> action \<Rightarrow> error + board_state" where
  "boardReducer ce near state (CHANGE_TOOL tool) = Inr (state\<lparr>activeToolItem := tool\<rparr>)"
| "boardReducer ce near state (CHANGE_ACTION_TYPE actionType) =
     Inr (state\<lparr>toolActionType := actionType\<rparr>)"
| "boardReducer ce near state (DRAW_DOWN clientX clientY stroke fill sz) =
     Inr (draw_down ce state clientX clientY stroke fill sz)"
| "boardReducer ce near state (DRAW_MOVE clientX clientY) = draw_move ce state clientX clientY"
| "boardReducer ce near state DRAW_UP = draw_up state"
| "boardReducer ce near state (ERASE clientX clientY) = erase near state clientX clientY"
| "boardReducer ce near state (CHANGE_TEXT txt) = Inr (change_text state txt)"
| "boardReducer ce near state UNDO = undo state"
| "boardReducer ce near state REDO = redo state"
| "boardReducer ce near state (SET_INITIAL_ELEMENTS payload) =
     (let initialElements = (case payload of Some es \<Rightarrow> es | None \<Rightarrow> []) in
      Inr (state\<lparr>elements := initialElements, history := Some [Arr initialElements],
                 index := 0\<rparr>))"
| "boardReducer ce near state (SET_CANVAS_ID cid) = Inr (state\<lparr>canvasId := cid\<rparr>)"
| "boardReducer ce near state (SET_CANVAS_ELEMENTS es) = Inr (state\<lparr>elements := es\<rparr>)"
| "boardReducer ce near state (SET_HISTORY payload) =
     (let els = (case payload of Some es \<Rightarrow> es | None \<Rightarrow> []) in
      Inr (state\<lparr>history := Some [Arr els], index := 0\<rparr>))"
| "boardReducer ce near state (SET_USER_LOGIN_STATUS b) = Inr (state\<lparr>isUserLoggedIn := b\<rparr>)"

text \<open>A sequence of dispatched actions; a throw ends it.\<close>

fun dispatch_all ::
  "create_element \<Rightarrow> point_near \<Rightarrow> board_state \<Rightarrow> action list \<Rightarrow> error + board_state" where
  "dispatch_all ce near state [] = Inr state"
| "dispatch_all ce near state (a # as) =
     (case boardReducer ce near state a of
        Inl e \<Rightarrow> Inl e
      | Inr state' \<Rightarrow> dispatch_all ce near state' as)"

section \<open>Vocabulary of the properties\<close>

text \<open>The value of an own property, \<^verbatim>\<open>undefined\<close> when the object has none of that name.\<close>

definition prop_val :: "(string \<times> jsval) list \<Rightarrow> string \<Rightarrow> jsval" where
  "prop_val kvs k = (case map_of kvs k of Some v \<Rightarrow> v | None \<Rightarrow> Undefined)"

text \<open>What \<^const>\<open>copy_element\<close> returns on an element that passed the filter, as a total
  function: the element with its \<^verbatim>\<open>points\<close> array, if it has one, rebuilt entry by entry.\<close>

definition copied :: "jsval \<Rightarrow> jsval" where
  "copied el =
     (case el of
        Obj kvs \<Rightarrow>
          (case map_of kvs ''points'' of
             Some (Arr ps) \<Rightarrow> Obj (set_prop ''points'' (Arr (map copy_point ps)) kvs)
           | _ \<Rightarrow> Obj kvs)
      | _ \<Rightarrow> Obj (spread el))"

text \<open>The snapshot taken of a live collection: its typed elements, each copied.\<close>

definition snapshot_of :: "jsval list \<Rightarrow> jsval list" where
  "snapshot_of es = map copied (filter has_type es)"

fun is_object :: "jsval \<Rightarrow> bool" where
  "is_object (Obj kvs) = True"
| "is_object v = False"

text \<open>An element that the filter keeps and the copy reproduces: it has a type, and the
  entries of its \<^verbatim>\<open>points\<close> array, if it has one, are objects.\<close>

definition well_formed_element :: "jsval \<Rightarrow> bool" where
  "well_formed_element el =
     (has_type el \<and>
      (case get el ''points'' of Inr (Arr ps) \<Rightarrow> list_all is_object ps | _ \<Rightarrow> True))"

definition snapshot_ok :: "jsval \<Rightarrow> bool" where
  "snapshot_ok snap = (isArray snap \<and> list_all well_formed_element (items snap))"

text \<open>The cursor is inside the log; the snapshot under the cursor, \<open>history[index]\<close>;
  the number of snapshots.\<close>

definition log_in_range :: "board_state \<Rightarrow> bool" where
  "log_in_range s =
     (case history s of
        None \<Rightarrow> False
      | Some h \<Rightarrow> 0 \<le> index s \<and> index s < int (length h))"

definition cursor_snapshot :: "board_state \<Rightarrow> jsval" where
  "cursor_snapshot s =
     (case history s of None \<Rightarrow> Undefined | Some h \<Rightarrow> at_index h (index s))"

definition log_length :: "board_state \<Rightarrow> int" where
  "log_length s = (case history s of None \<Rightarrow> 0 | Some h \<Rightarrow> int (length h))"

text \<open>A state ready for history operations: the cursor is inside the log, every
  snapshot is a sequence, and the live elements are well formed. Nothing is asked of the
  entries of the snapshots, nor that the snapshot under the cursor is the live
  collection.\<close>

definition log_ready :: "board_state \<Rightarrow> bool" where
  "log_ready s =
     (log_in_range s \<and>
      (case history s of None \<Rightarrow> False | Some h \<Rightarrow> list_all isArray h) \<and>
      list_all well_formed_element (elements s))"

subsection \<open>Example data\<close>

text \<open>A constructor in the way of the spec: the bounding coordinates as given for a
  shape, an empty point sequence for the brush.\<close>

definition example_createElement :: create_element where
  "example_createElement i x1 y1 x2 y2 options =
     (if get options ''type'' = Inr (Str BRUSH)
      then Obj ([(''id'', Num i), (''points'', Arr [])] @ spread options)
      else Obj ([(''id'', Num i), (''x1'', x1), (''y1'', y1), (''x2'', x2), (''y2'', y2)]
                @ spread options))"

definition example_near :: point_near where
  "example_near el x y = (get el ''x1'' = Inr x \<and> get el ''y1'' = Inr y)"

definition example_line :: jsval where
  "example_line =
     Obj [(''id'', Num 0), (''x1'', Num 10), (''y1'', Num 10), (''x2'', Num 40),
          (''y2'', Num 20), (''type'', Str LINE), (''stroke'', Str ''black''),
          (''size'', Num 1)]"

definition example_brush :: jsval where
  "example_brush =
     Obj [(''id'', Num 1), (''points'', Arr [Obj [(''x'', Num 1), (''y'', Num 2)]]),
          (''type'', Str BRUSH), (''stroke'', Str ''black'')]"

definition example_text :: jsval where
  "example_text =
     Obj [(''id'', Num 0), (''x1'', Num 5), (''y1'', Num 5), (''type'', Str TEXT),
          (''text'', Str ''hello'')]"

text \<open>A drag in progress: \<^verbatim>\<open>DRAW_DOWN\<close> with the line tool has appended a line to
  the empty collection of the initial state; nothing has been pushed yet.\<close>

definition mid_gesture_state :: board_state where
  "mid_gesture_state =
     (initialBoardState True)
       \<lparr>activeToolItem := LINE, toolActionType := DRAWING, elements := [example_line]\<rparr>"

text \<open>A consistent log of five snapshots with the cursor on the last.\<close>

definition five_snapshot_state :: board_state where
  "five_snapshot_state =
     (initialBoardState True)
       \<lparr>elements := [example_line, example_brush],
        history := Some [Arr [], Arr [example_line], Arr [], Arr [example_brush],
                         Arr [example_line, example_brush]],
        index := 4\<rparr>"

text \<open>A log whose middle entry is not a sequence.\<close>

definition damaged_log :: "jsval list" where
  "damaged_log = [Arr [example_line], Num 7, Arr [example_brush, Undefined]]"

section \<open>Objects in a store\<close>

text \<open>
  Where a property is about identity and sharing (the same array, the same element
  object), values are not trees: an array or object is a cell of a store and a value
  refers to it by address. \<^verbatim>\<open>[...]\<close>, \<^verbatim>\<open>{...}\<close>, \<^verbatim>\<open>filter\<close>, \<^verbatim>\<open>map\<close> and \<^verbatim>\<open>slice\<close>
  allocate a new cell at the end of the store; an assignment to a property and \<^verbatim>\<open>push\<close>
  overwrite the cell they address.
\<close>

datatype ref_val =
    RUndefined
  | RNull
  | RBool bool
  | RNum int
  | RStr string
  | Ref nat

datatype cell = ObjCell "(string \<times> ref_val) list" | ArrCell "ref_val list"

type_synonym store = "cell list"

definition alloc :: "cell \<Rightarrow> store \<Rightarrow> nat \<times> store" where
  "alloc c st = (length st, st @ [c])"

text \<open>The cell at an address; an address outside the store holds none.\<close>

definition cell_at :: "store \<Rightarrow> nat \<Rightarrow> cell option" where
  "cell_at st a = (if a < length st then Some (st ! a) else None)"

fun ref_truthy :: "ref_val \<Rightarrow> bool" where
  "ref_truthy RUndefined = False"
| "ref_truthy RNull = False"
| "ref_truthy (RBool b) = b"
| "ref_truthy (RNum n) = (n \<noteq> 0)"
| "ref_truthy (RStr s) = (s \<noteq> [])"
| "ref_truthy (Ref a) = True"

text \<open>The property read \<^verbatim>\<open>v.k\<close>, as \<^const>\<open>get\<close>, through the store.\<close>

fun ref_get :: "store \<Rightarrow> ref_val \<Rightarrow> string \<Rightarrow> error + ref_val" where
  "ref_get st RUndefined k = Inl TypeError"
| "ref_get st RNull k = Inl TypeError"
| "ref_get st (Ref a) k =
     (case cell_at st a of
        Some (ObjCell kvs) \<Rightarrow> Inr (case map_of kvs k of Some v \<Rightarrow> v | None \<Rightarrow> RUndefined)
      | Some (ArrCell xs) \<Rightarrow>
          Inr (if k = ''length'' then RNum (int (length xs)) else RUndefined)
      | None \<Rightarrow> Inr RUndefined)"
| "ref_get st (RStr s) k = Inr (if k = ''length'' then RNum (int (length s)) else RUndefined)"
| "ref_get st (RBool b) k = Inr RUndefined"
| "ref_get st (RNum n) k = Inr RUndefined"

text \<open>The entries of \<open>v\<close> when \<^verbatim>\<open>Array.isArray(v)\<close>.\<close>

fun array_items :: "store \<Rightarrow> ref_val \<Rightarrow> ref_val list option" where
  "array_items st (Ref a) =
     (case cell_at st a of Some (ArrCell xs) \<Rightarrow> Some xs | _ \<Rightarrow> None)"
| "array_items st v = None"

text \<open>The properties an object spread \<^verbatim>\<open>{ ...v }\<close> copies, as \<^const>\<open>spread\<close>.\<close>

fun ref_spread :: "store \<Rightarrow> ref_val \<Rightarrow> (string \<times> ref_val) list" where
  "ref_spread st (Ref a) =
     (case cell_at st a of
        Some (ObjCell kvs) \<Rightarrow> kvs
      | Some (ArrCell xs) \<Rightarrow> zip (map string_of_nat [0..<length xs]) xs
      | None \<Rightarrow> [])"
| "ref_spread st (RStr s) = zip (map string_of_nat [0..<length s]) (map (\<lambda>c. RStr [c]) s)"
| "ref_spread st v = []"

text \<open>The assignment \<^verbatim>\<open>o.k = v\<close> on the object at address \<open>a\<close>, and \<^verbatim>\<open>xs.push(v)\<close> on
  the array at address \<open>a\<close>: the cell is overwritten in place.\<close>

definition assign_prop :: "store \<Rightarrow> nat \<Rightarrow> string \<Rightarrow> ref_val \<Rightarrow> store" where
  "assign_prop st a k v =
     (case cell_at st a of
        Some (ObjCell kvs) \<Rightarrow> st[a := ObjCell (set_prop k v kvs)]
      | _ \<Rightarrow> st)"

definition push :: "store \<Rightarrow> nat \<Rightarrow> ref_val \<Rightarrow> store" where
  "push st a v =
     (case cell_at st a of
        Some (ArrCell xs) \<Rightarrow> st[a := ArrCell (xs @ [v])]
      | _ \<Rightarrow> st)"

text \<open>\<^verbatim>\<open>xs.filter(cb)\<close> on entries that may be references; the callbacks used read
  the store and do not change it.\<close>

fun filter_ref :: "(ref_val \<Rightarrow> error + ref_val) \<Rightarrow> ref_val list \<Rightarrow> error + ref_val list" where
  "filter_ref cb [] = Inr []"
| "filter_ref cb (x # xs) =
     (case cb x of
        Inl e \<Rightarrow> Inl e
      | Inr r \<Rightarrow>
          (case filter_ref cb xs of
             Inl e \<Rightarrow> Inl e
           | Inr ys \<Rightarrow> Inr (if ref_truthy r then x # ys else ys)))"

text \<open>The fields of the board state that \<^verbatim>\<open>DRAW_UP\<close> and \<^verbatim>\<open>ERASE\<close> read or write; the
  others are primitives that \<^verbatim>\<open>...state\<close> carries over.\<close>

record board_refs =
  elements_ref :: ref_val
  history_ref :: ref_val
  index_of :: int

text \<open>\<^verbatim>\<open>el => el && el.type\<close>.\<close>

definition el_and_type_st :: "store \<Rightarrow> ref_val \<Rightarrow> error + ref_val" where
  "el_and_type_st st el = (if ref_truthy el then ref_get st el ''type'' else Inr el)"

text \<open>\<^verbatim>\<open>el.points.map(p => ({ ...p }))\<close>: one new object per entry.\<close>

fun copy_points_st :: "store \<Rightarrow> ref_val list \<Rightarrow> store \<times> ref_val list" where
  "copy_points_st st [] = (st, [])"
| "copy_points_st st (p # ps) =
     (case alloc (ObjCell (ref_spread st p)) st of
        (a, st1) \<Rightarrow>
          (case copy_points_st st1 ps of (st2, rs) \<Rightarrow> (st2, Ref a # rs)))"

text \<open>The callback of the deep copy (lines 598-606): a new object with the properties of
  \<open>el\<close>; when \<^verbatim>\<open>el.points\<close> is an array, new point objects, a new array of them, and the
  assignment of that array to \<^verbatim>\<open>copy.points\<close>.\<close>

definition copy_element_st :: "store \<Rightarrow> ref_val \<Rightarrow> error + store \<times> ref_val" where
  "copy_element_st st el =
     (case alloc (ObjCell (ref_spread st el)) st of
        (copy, st1) \<Rightarrow>
          and_then (ref_get st1 el ''points'') (\<lambda>points.
            if ref_truthy points \<and> array_items st1 points \<noteq> None
            then
              (case copy_points_st st1 (the (array_items st1 points)) of
                 (st2, rs) \<Rightarrow>
                   (case alloc (ArrCell rs) st2 of
                      (pa, st3) \<Rightarrow> Inr (assign_prop st3 copy ''points'' (Ref pa), Ref copy)))
            else Inr (st1, Ref copy)))"

fun map_copy_st :: "store \<Rightarrow> ref_val list \<Rightarrow> error + store \<times> ref_val list" where
  "map_copy_st st [] = Inr (st, [])"
| "map_copy_st st (el # els) =
     and_then (copy_element_st st el) (\<lambda>r1.
     and_then (map_copy_st (fst r1) els) (\<lambda>r2.
       Inr (fst r2, snd r1 # snd r2)))"

text \<open>\<^verbatim>\<open>const currentHistory = state.history || []; const newHistory =
  currentHistory.slice(0, state.index + 1); newHistory.push(snapshot);\<close> A value
  without \<^verbatim>\<open>slice\<close> and \<^verbatim>\<open>push\<close> throws.\<close>

definition push_history :: "store \<Rightarrow> board_refs \<Rightarrow> ref_val \<Rightarrow> error + store \<times> nat" where
  "push_history st state snapshot =
     (case (if ref_truthy (history_ref state) then (history_ref state, st)
            else (case alloc (ArrCell []) st of (a, st') \<Rightarrow> (Ref a, st'))) of
        (currentHistory, st1) \<Rightarrow>
          (case array_items st1 currentHistory of
             None \<Rightarrow> Inl TypeError
           | Some h \<Rightarrow>
               (case alloc (ArrCell (slice0 h (index_of state + 1))) st1 of
                  (newHistory, st2) \<Rightarrow> Inr (push st2 newHistory snapshot, newHistory))))"

text \<open>Case \<^verbatim>\<open>DRAW_UP\<close> (lines 592-618) on the store.\<close>

definition draw_up_st :: "store \<Rightarrow> board_refs \<Rightarrow> error + store \<times> board_refs" where
  "draw_up_st st state =
     (case array_items st (elements_ref state) of
        None \<Rightarrow> Inl TypeError
      | Some els \<Rightarrow>
          and_then (filter_ref (el_and_type_st st) els) (\<lambda>validEls.
            case alloc (ArrCell validEls) st of
              (validArr, st1) \<Rightarrow>
                and_then (map_copy_st st1 validEls) (\<lambda>r.
                  case alloc (ArrCell (snd r)) (fst r) of
                    (elementsCopy, st2) \<Rightarrow>
                      and_then (push_history st2 state (Ref elementsCopy)) (\<lambda>r'.
                        Inr (fst r',
                             state\<lparr>history_ref := Ref (snd r'),
                                   index_of := index_of state + 1\<rparr>)))))"

text \<open>Case \<^verbatim>\<open>ERASE\<close> (lines 619-640) on the store: the array \<^verbatim>\<open>filter\<close> returns is
  assigned to \<^verbatim>\<open>elements\<close> and pushed onto the history.\<close>

type_synonym point_near_st = "store \<Rightarrow> ref_val \<Rightarrow> ref_val \<Rightarrow> ref_val \<Rightarrow> bool"

definition erase_keep_st ::
  "point_near_st \<Rightarrow> store \<Rightarrow> ref_val \<Rightarrow> ref_val \<Rightarrow> ref_val \<Rightarrow> error + ref_val" where
  "erase_keep_st isPointNearElement st clientX clientY element =
     (if \<not> ref_truthy element then Inr (RBool False)
      else and_then (ref_get st element ''type'') (\<lambda>ty.
        if \<not> ref_truthy ty then Inr (RBool False)
        else Inr (RBool (\<not> isPointNearElement st element clientX clientY))))"

definition erase_st ::
  "point_near_st \<Rightarrow> store \<Rightarrow> board_refs \<Rightarrow> ref_val \<Rightarrow> ref_val \<Rightarrow> error + store \<times> board_refs" where
  "erase_st isPointNearElement st state clientX clientY =
     (case array_items st (elements_ref state) of
        None \<Rightarrow> Inl TypeError
      | Some els \<Rightarrow>
          and_then (filter_ref (erase_keep_st isPointNearElement st clientX clientY) els)
            (\<lambda>kept.
               case alloc (ArrCell kept) st of
                 (newElements, st1) \<Rightarrow>
                   and_then (push_history st1 state (Ref newElements)) (\<lambda>r'.
                     Inr (fst r',
                          state\<lparr>elements_ref := Ref newElements, history_ref := Ref (snd r'),
                                index_of := index_of state + 1\<rparr>))))"

text \<open>
  Case \<^verbatim>\<open>DRAW_MOVE\<close> (lines 554-591) on the store. \<^verbatim>\<open>[...state.elements]\<close> is a new
  array of the same entries, so its last entry is the element object that the previous
  state and every snapshot holding that object refer to. The shape case puts a new
  element into the new array. The brush case assigns a new point sequence to
  \<^verbatim>\<open>points\<close> of the last element itself: the cell of that object is overwritten in
  place. \<^verbatim>\<open>state.activeToolItem\<close> is a string and is given as an argument;
  \<^verbatim>\<open>createElement\<close> is a parameter that may allocate.
\<close>

type_synonym create_element_st =
  "store \<Rightarrow> int \<Rightarrow> ref_val \<Rightarrow> ref_val \<Rightarrow> ref_val \<Rightarrow> ref_val \<Rightarrow> ref_val \<Rightarrow> store \<times> ref_val"

text \<open>The entries an array spread \<^verbatim>\<open>[...v]\<close> iterates, as \<^const>\<open>iterate\<close>.\<close>

fun iterate_st :: "store \<Rightarrow> ref_val \<Rightarrow> ref_val list option" where
  "iterate_st st (RStr s) = Some (map (\<lambda>c. RStr [c]) s)"
| "iterate_st st v = array_items st v"

text \<open>The assignment \<^verbatim>\<open>xs[i] = v\<close> on the array at address \<open>a\<close>, for \<open>i\<close> within it.\<close>

definition assign_index :: "store \<Rightarrow> nat \<Rightarrow> nat \<Rightarrow> ref_val \<Rightarrow> store" where
  "assign_index st a i v =
     (case cell_at st a of
        Some (ArrCell xs) \<Rightarrow> st[a := ArrCell (xs[i := v])]
      | _ \<Rightarrow> st)"

definition draw_move_st ::
  "create_element_st \<Rightarrow> string \<Rightarrow> store \<Rightarrow> board_refs \<Rightarrow> ref_val \<Rightarrow> ref_val
   \<Rightarrow> error + store \<times> board_refs" where
  "draw_move_st createElement activeTool st state clientX clientY =
     (case iterate_st st (elements_ref state) of
        None \<Rightarrow> Inl TypeError
      | Some els \<Rightarrow>
          (case alloc (ArrCell els) st of
             (newElements, st1) \<Rightarrow>
               let idx = int (length els) - 1;
                   last_el = (if 0 \<le> idx then els ! nat idx else RUndefined)
               in and_then (ref_get st1 last_el ''type'') (\<lambda>ty.
                    if ty = RStr LINE \<or> ty = RStr RECTANGLE \<or> ty = RStr CIRCLE \<or> ty = RStr ARROW
                    then
                      and_then (ref_get st1 last_el ''x1'') (\<lambda>x1.
                      and_then (ref_get st1 last_el ''y1'') (\<lambda>y1.
                      and_then (ref_get st1 last_el ''stroke'') (\<lambda>stroke.
                      and_then (ref_get st1 last_el ''fill'') (\<lambda>fill.
                      and_then (ref_get st1 last_el ''size'') (\<lambda>sz.
                        case alloc (ObjCell [(''type'', RStr activeTool), (''stroke'', stroke),
                                             (''fill'', fill), (''size'', sz)]) st1 of
                          (options, st2) \<Rightarrow>
                            (case createElement st2 idx x1 y1 clientX clientY (Ref options) of
                               (st3, newElement) \<Rightarrow>
                                 Inr (assign_index st3 newElements (nat idx) newElement,
                                      state\<lparr>elements_ref := Ref newElements\<rparr>)))))))
                    else if ty = RStr BRUSH
                    then
                      and_then (ref_get st1 last_el ''points'') (\<lambda>points.
                        case iterate_st st1 points of
                          None \<Rightarrow> Inl TypeError
                        | Some ps \<Rightarrow>
                            (case alloc (ObjCell [(''x'', clientX), (''y'', clientY)]) st1 of
                               (point, st2) \<Rightarrow>
                                 (case alloc (ArrCell (ps @ [Ref point])) st2 of
                                    (newPoints, st3) \<Rightarrow>
                                      (case last_el of
                                         Ref a \<Rightarrow>
                                           Inr (assign_prop st3 a ''points'' (Ref newPoints),
                                                state\<lparr>elements_ref := Ref newElements\<rparr>)
                                       | _ \<Rightarrow> Inl TypeError))))
                    else Inl (Error ''Type not recognized''))))"

text \<open>The tree a value stands for in a store, read to a given depth.\<close>

fun reify :: "nat \<Rightarrow> store \<Rightarrow> ref_val \<Rightarrow> jsval" where
  "reify d st RUndefined = Undefined"
| "reify d st RNull = Null"
| "reify d st (RBool b) = Bool b"
| "reify d st (RNum n) = Num n"
| "reify d st (RStr s) = Str s"
| "reify 0 st (Ref a) = Undefined"
| "reify (Suc d) st (Ref a) =
     (case cell_at st a of
        Some (ObjCell kvs) \<Rightarrow> Obj (map (\<lambda>kv. (fst kv, reify d st (snd kv))) kvs)
      | Some (ArrCell xs) \<Rightarrow> Arr (map (reify d st) xs)
      | None \<Rightarrow> Undefined)"


subsection \<open>Vocabulary of the store properties\<close>

text \<open>A value that refers to nothing outside the store, and a store all of whose cells
  hold such values.\<close>

fun in_store :: "store \<Rightarrow> ref_val \<Rightarrow> bool" where
  "in_store st (Ref a) = (a < length st)"
| "in_store st v = True"

fun cell_vals :: "cell \<Rightarrow> ref_val list" where
  "cell_vals (ObjCell kvs) = map snd kvs"
| "cell_vals (ArrCell xs) = xs"

definition closed_store :: "store \<Rightarrow> bool" where
  "closed_store st = list_all (\<lambda>c. list_all (in_store st) (cell_vals c)) st"

text \<open>An entry the filter keeps: truthy, with a truthy \<^verbatim>\<open>type\<close>.\<close>

definition valid_st :: "store \<Rightarrow> ref_val \<Rightarrow> bool" where
  "valid_st st el =
     (ref_truthy el \<and> (case ref_get st el ''type'' of Inr t \<Rightarrow> ref_truthy t | Inl e \<Rightarrow> False))"

text \<open>The entries of \<^verbatim>\<open>el.points\<close> when that is an array.\<close>

definition points_of :: "store \<Rightarrow> ref_val \<Rightarrow> ref_val list option" where
  "points_of st el =
     (case ref_get st el ''points'' of Inr pts \<Rightarrow> array_items st pts | Inl e \<Rightarrow> None)"

text \<open>
  \<open>r\<close> is a copy, made in \<open>st'\<close>, of the point \<open>p\<close> of \<open>st\<close>: a cell that \<open>st\<close> does not
  have, holding the properties of \<open>p\<close>. \<open>c\<close> is a deep copy of the element \<open>el\<close>: a cell
  that \<open>st\<close> does not have, holding the properties of \<open>el\<close>, except that an array
  \<^verbatim>\<open>points\<close> is replaced by an array that \<open>st\<close> does not have, of copies of its points.
\<close>

definition point_copied :: "store \<Rightarrow> store \<Rightarrow> ref_val \<Rightarrow> ref_val \<Rightarrow> bool" where
  "point_copied st st' p r =
     (case r of
        Ref b \<Rightarrow> length st \<le> b \<and> cell_at st' b = Some (ObjCell (ref_spread st p))
      | _ \<Rightarrow> False)"

definition element_copied :: "store \<Rightarrow> store \<Rightarrow> ref_val \<Rightarrow> ref_val \<Rightarrow> bool" where
  "element_copied st st' el c =
     (case c of
        Ref a \<Rightarrow>
          length st \<le> a \<and>
          (case cell_at st' a of
             Some (ObjCell kvs) \<Rightarrow>
               (case points_of st el of
                  None \<Rightarrow> kvs = ref_spread st el
                | Some ps \<Rightarrow>
                    (case map_of kvs ''points'' of
                       Some (Ref pa) \<Rightarrow>
                         length st \<le> pa \<and>
                         kvs = set_prop ''points'' (Ref pa) (ref_spread st el) \<and>
                         (case cell_at st' pa of
                            Some (ArrCell rs) \<Rightarrow> list_all2 (point_copied st st') ps rs
                          | _ \<Rightarrow> False)
                     | _ \<Rightarrow> False))
           | _ \<Rightarrow> False)
      | _ \<Rightarrow> False)"

text \<open>The cells that copying \<open>el\<close> appends to a store of length \<open>n\<close>, and the cells and
  references that copying a list of elements appends.\<close>

definition copy_cells :: "store \<Rightarrow> nat \<Rightarrow> ref_val \<Rightarrow> cell list" where
  "copy_cells st n el =
     (case points_of st el of
        None \<Rightarrow> [ObjCell (ref_spread st el)]
      | Some ps \<Rightarrow>
          ObjCell (set_prop ''points'' (Ref (n + 1 + length ps)) (ref_spread st el))
          # map (\<lambda>p. ObjCell (ref_spread st p)) ps
          @ [ArrCell (map Ref [n + 1 ..< n + 1 + length ps])])"

fun snapshot_cells :: "store \<Rightarrow> nat \<Rightarrow> ref_val list \<Rightarrow> cell list \<times> ref_val list" where
  "snapshot_cells st n [] = ([], [])"
| "snapshot_cells st n (el # els) =
     (case snapshot_cells st (n + length (copy_cells st n el)) els of
        (cells, refs) \<Rightarrow> (copy_cells st n el @ cells, Ref n # refs))"

text \<open>The entries of \<^verbatim>\<open>state.history || []\<close> when that is an array.\<close>

definition history_items :: "store \<Rightarrow> ref_val \<Rightarrow> ref_val list option" where
  "history_items st h = (if ref_truthy h then array_items st h else Some [])"

subsection \<open>Example store\<close>

text \<open>A brush stroke of one point, an object without a type and \<^verbatim>\<open>null\<close> in the live
  array (address 4); a history (address 6) of one empty snapshot.\<close>

definition example_store :: store where
  "example_store =
     [ObjCell [(''x'', RNum 1), (''y'', RNum 2)],
      ArrCell [Ref 0],
      ObjCell [(''type'', RStr BRUSH), (''points'', Ref 1)],
      ObjCell [(''foo'', RNum 1)],
      ArrCell [Ref 2, Ref 3, RNull],
      ArrCell [],
      ArrCell [Ref 5]]"

definition example_refs :: board_refs where
  "example_refs = \<lparr>elements_ref = Ref 4, history_ref = Ref 6, index_of = 0\<rparr>"

definition never_near :: point_near_st where
  "never_near st el x y = False"

text \<open>The example store after an erase pass far from the stroke, and after
  \<^verbatim>\<open>DRAW_UP\<close>.\<close>

definition after_erase :: store where
  "after_erase = example_store @ [ArrCell [Ref 2], ArrCell [Ref 5, Ref 7]]"

definition after_draw_up :: store where
  "after_draw_up =
     example_store @
       [ArrCell [Ref 2],
        ObjCell [(''type'', RStr BRUSH), (''points'', Ref 10)],
        ObjCell [(''x'', RNum 1), (''y'', RNum 2)],
        ArrCell [Ref 9],
        ArrCell [Ref 8],
        ArrCell [Ref 5, Ref 11]]"

text \<open>The store after the erase pass and a pointer move at (5, 6) with the brush.\<close>

definition after_move :: store where
  "after_move =
     (after_erase @
        [ArrCell [Ref 2],
         ObjCell [(''x'', RNum 5), (''y'', RNum 6)],
         ArrCell [Ref 0, Ref 10]])
       [2 := ObjCell [(''type'', RStr BRUSH), (''points'', Ref 11)]]"


section \<open>The board component\<close>

text \<open>
  The component \<^verbatim>\<open>Board\<close> (\<^verbatim>\<open>App.js\<close> lines 78-510) and the handlers of
  \<^verbatim>\<open>BoardProvider\<close> (lines 845-984), as a machine over events. Execution is
  single-threaded: one event (a route change, a pointer or key event, an inbound socket
  message, a timer) is handled to its end, then the component is rendered again with the
  new board state. What the component does to the outside is recorded, in order, in a
  trace: messages given to \<^verbatim>\<open>socket.emit\<close>, \<^verbatim>\<open>alert\<close> boxes, the actions dispatched to
  the reducer, and the timers set. A message given to \<^verbatim>\<open>socket.emit\<close> is recorded
  whichever socket instance it is given to. A \<^verbatim>\<open>setTimeout\<close> is a pending timer with
  its delay in milliseconds and the canvas its callback joins; the callback runs when
  the timer event arrives.

  The socket is the module \<^verbatim>\<open>utils/socket.js\<close>: one current instance at most, numbered
  in the order of creation. Listeners are registered on the instance that
  \<^verbatim>\<open>getSocket()\<close> returned to the effect; an inbound message is an event of the current
  instance and reaches a listener only if the listener is registered on it.
\<close>

datatype effect = Emit string jsval | Alert string | Dispatched action | SetTimeout nat string

record board_view =
  mounted :: bool
  route :: "string option"
  board :: board_state
  currentCanvasRef :: "jsval \<times> jsval"
  isAuthorized :: bool
  listening :: "(string \<times> nat) option"
  unauthorizedRetryCount :: nat
  connect_listener :: bool
  socketInstance :: "nat option"
  sockets_made :: nat
  connected :: bool
  timers :: "(nat \<times> string) list"
  trace :: "effect list"
  crashed :: bool

text \<open>Before the first render: \<^verbatim>\<open>useState(true)\<close>,
  \<^verbatim>\<open>useRef({ id: null, elements: [] })\<close>, no listener, no timer. The socket module
  outlives the component: \<open>online\<close> says that a connected instance exists already.\<close>

definition initial_view :: "bool \<Rightarrow> bool \<Rightarrow> board_view" where
  "initial_view loggedIn online =
     \<lparr>mounted = False, route = None, board = initialBoardState loggedIn,
      currentCanvasRef = (Null, Arr []), isAuthorized = True, listening = None,
      unauthorizedRetryCount = 0, connect_listener = False,
      socketInstance = (if online then Some 0 else None),
      sockets_made = (if online then 1 else 0), connected = online,
      timers = [], trace = [], crashed = False\<rparr>"

datatype event =
    Navigate "string option"
  | MouseDown jsval jsval jsval jsval jsval
  | MouseMove jsval jsval
  | MouseUp
  | TextBlur jsval
  | KeyUndo
  | KeyRedo
  | ReceiveDrawingUpdate jsval
  | LoadCanvas jsval
  | Unauthorized jsval
  | SocketConnect
  | SocketDisconnect
  | TimerFired nat
  | ApiLoaded string jsval

text \<open>
  \<^verbatim>\<open>getSocket()\<close> (\<^verbatim>\<open>socket.js\<close> lines 40-69, without \<^verbatim>\<open>forceReconnect\<close>): a new
  instance when there is none; when the current one is not connected, it is disconnected
  and replaced by a new one, which has no listeners and is not connected yet.
\<close>

definition getSocket :: "board_view \<Rightarrow> board_view" where
  "getSocket v =
     (if socketInstance v = None \<or> \<not> connected v
      then v\<lparr>socketInstance := Some (sockets_made v), sockets_made := sockets_made v + 1,
              connected := False\<rparr>
      else v)"

text \<open>The canvas whose listeners are registered on the current instance, if any.\<close>

definition listener :: "board_view \<Rightarrow> string option" where
  "listener v =
     (case listening v of
        None \<Rightarrow> None
      | Some l \<Rightarrow> if socketInstance v = Some (snd l) then Some (fst l) else None)"

definition emit :: "string \<Rightarrow> jsval \<Rightarrow> board_view \<Rightarrow> board_view" where
  "emit ev payload v = v\<lparr>trace := trace v @ [Emit ev payload]\<rparr>"

text \<open>\<^verbatim>\<open>dispatchBoardAction\<close>: the reducer runs on the latest board state; a throw of the
  reducer is an error while rendering, which takes the component down.\<close>

definition dispatchBoardAction ::
  "create_element \<Rightarrow> point_near \<Rightarrow> action \<Rightarrow> board_view \<Rightarrow> board_view" where
  "dispatchBoardAction ce near a v =
     (if crashed v then v
      else
        (case boardReducer ce near (board v) a of
           Inr b \<Rightarrow> v\<lparr>board := b, trace := trace v @ [Dispatched a]\<rparr>
         | Inl e \<Rightarrow> v\<lparr>crashed := True\<rparr>))"

text \<open>\<^verbatim>\<open>setElements\<close>, \<^verbatim>\<open>setHistory\<close>, \<^verbatim>\<open>setCanvasId\<close> (lines 959-984).\<close>

definition setElements ::
  "create_element \<Rightarrow> point_near \<Rightarrow> jsval list \<Rightarrow> board_view \<Rightarrow> board_view" where
  "setElements ce near es v = dispatchBoardAction ce near (SET_CANVAS_ELEMENTS es) v"

definition setHistory ::
  "create_element \<Rightarrow> point_near \<Rightarrow> jsval list \<Rightarrow> board_view \<Rightarrow> board_view" where
  "setHistory ce near es v = dispatchBoardAction ce near (SET_HISTORY (Some es)) v"

definition setCanvasId ::
  "create_element \<Rightarrow> point_near \<Rightarrow> string \<Rightarrow> board_view \<Rightarrow> board_view" where
  "setCanvasId ce near cid v = dispatchBoardAction ce near (SET_CANVAS_ID cid) v"

text \<open>The handlers of the provider (lines 845-957). Each reads the board state of the
  current render and dispatches; the canvas element it looks up is the one the event
  came from.\<close>

definition boardMouseDownHandler ::
  "create_element \<Rightarrow> point_near \<Rightarrow> jsval \<Rightarrow> jsval \<Rightarrow> jsval \<Rightarrow> jsval \<Rightarrow> jsval
   \<Rightarrow> board_view \<Rightarrow> board_view" where
  "boardMouseDownHandler ce near clientX clientY stroke fill sz v =
     (if toolActionType (board v) = WRITING then v
      else if activeToolItem (board v) = ERASER
      then dispatchBoardAction ce near (CHANGE_ACTION_TYPE ERASING)
             (dispatchBoardAction ce near (ERASE clientX clientY) v)
      else dispatchBoardAction ce near (DRAW_DOWN clientX clientY stroke fill sz) v)"

definition boardMouseMoveHandler ::
  "create_element \<Rightarrow> point_near \<Rightarrow> jsval \<Rightarrow> jsval \<Rightarrow> board_view \<Rightarrow> board_view" where
  "boardMouseMoveHandler ce near clientX clientY v =
     (if toolActionType (board v) = WRITING then v
      else if toolActionType (board v) = DRAWING
      then dispatchBoardAction ce near (DRAW_MOVE clientX clientY) v
      else if toolActionType (board v) = ERASING
      then dispatchBoardAction ce near (ERASE clientX clientY) v
      else v)"

definition boardMouseUpHandler ::
  "create_element \<Rightarrow> point_near \<Rightarrow> board_view \<Rightarrow> board_view" where
  "boardMouseUpHandler ce near v =
     (if toolActionType (board v) = WRITING then v
      else dispatchBoardAction ce near (CHANGE_ACTION_TYPE NONE)
             (if toolActionType (board v) = DRAWING
              then dispatchBoardAction ce near DRAW_UP v else v))"

text \<open>The payload \<^verbatim>\<open>{ canvasId: id, elements }\<close> of a pointer handler: the \<^verbatim>\<open>id\<close> and
  \<^verbatim>\<open>elements\<close> of the render the handler belongs to.\<close>

definition update_payload :: "board_view \<Rightarrow> jsval" where
  "update_payload v =
     Obj [(''canvasId'', (case route v of Some i \<Rightarrow> Str i | None \<Rightarrow> Undefined)),
          (''elements'', Arr (elements (board v)))]"

text \<open>The pointer handlers of the component (lines 447-474). The move and the up
  handler call \<^verbatim>\<open>getSocket()\<close> for the instance they emit on.\<close>

definition handleMouseDown ::
  "create_element \<Rightarrow> point_near \<Rightarrow> jsval \<Rightarrow> jsval \<Rightarrow> jsval \<Rightarrow> jsval \<Rightarrow> jsval
   \<Rightarrow> board_view \<Rightarrow> board_view" where
  "handleMouseDown ce near clientX clientY stroke fill sz v =
     (if \<not> isAuthorized v then v
      else boardMouseDownHandler ce near clientX clientY stroke fill sz v)"

definition handleMouseMove ::
  "create_element \<Rightarrow> point_near \<Rightarrow> jsval \<Rightarrow> jsval \<Rightarrow> board_view \<Rightarrow> board_view" where
  "handleMouseMove ce near clientX clientY v =
     (if \<not> isAuthorized v then v
      else emit ''drawingUpdate'' (update_payload v)
             (getSocket (boardMouseMoveHandler ce near clientX clientY v)))"

definition handleMouseUp :: "create_element \<Rightarrow> point_near \<Rightarrow> board_view \<Rightarrow> board_view" where
  "handleMouseUp ce near v =
     (if \<not> isAuthorized v then v
      else emit ''drawingUpdate'' (update_payload v)
             (getSocket (boardMouseUpHandler ce near v)))"

text \<open>\<^verbatim>\<open>joinCanvasRoom\<close> (lines 140-147) and \<^verbatim>\<open>handleUnauthorized\<close> (lines 170-185) of the
  effect that was run for canvas \<open>cid\<close>. The handler first reads \<^verbatim>\<open>data.message\<close> for its
  log line, which throws when the message came without a payload.\<close>

definition joinCanvasRoom :: "string \<Rightarrow> board_view \<Rightarrow> board_view" where
  "joinCanvasRoom cid v =
     v\<lparr>timers := timers v @ [(300, cid)], trace := trace v @ [SetTimeout 300 cid]\<rparr>"

definition handleUnauthorized :: "string \<Rightarrow> jsval \<Rightarrow> board_view \<Rightarrow> error + board_view" where
  "handleUnauthorized cid data v =
     and_then (get data ''message'') (\<lambda>message.
       if unauthorizedRetryCount v = 0
       then Inr (v\<lparr>unauthorizedRetryCount := unauthorizedRetryCount v + 1,
                   timers := timers v @ [(500, cid)],
                   trace := trace v @ [SetTimeout 500 cid]\<rparr>)
       else Inr ((v\<lparr>trace := trace v
                          @ [Alert ''Access Denied: You cannot edit this canvas.'']\<rparr>)
                   \<lparr>isAuthorized := False\<rparr>))"

text \<open>
  The socket effect (lines 113-205), run when \<^verbatim>\<open>id\<close> has changed, after the cleanup of
  the previous run (\<^verbatim>\<open>socket.off\<close> of the four listeners).
\<close>

definition socket_effect ::
  "create_element \<Rightarrow> point_near \<Rightarrow> string option \<Rightarrow> board_view \<Rightarrow> board_view" where
  "socket_effect ce near ident v0 =
     (let v = v0\<lparr>listening := None, connect_listener := False\<rparr> in
      case ident of
        None \<Rightarrow> setHistory ce near [Arr []] (setElements ce near [] v)
      | Some i \<Rightarrow>
          if i = [] then setHistory ce near [Arr []] (setElements ce near [] v)
          else
            let v = getSocket v;
                prev = currentCanvasRef v;
                v1 = (if truthy (fst prev) \<and> fst prev \<noteq> Str i \<and> isArray (snd prev)
                      then emit ''drawingUpdate''
                             (Obj [(''canvasId'', fst prev), (''elements'', snd prev)]) v
                      else v);
                v2 = v1\<lparr>currentCanvasRef := (Str i, Arr [])\<rparr>;
                v3 = setHistory ce near [Arr []] (setElements ce near [] v2);
                v4 = v3\<lparr>isAuthorized := True,
                        listening := map_option (\<lambda>k. (i, k)) (socketInstance v3),
                        unauthorizedRetryCount := 0\<rparr>
            in if connected v4 then joinCanvasRoom i v4 else v4\<lparr>connect_listener := True\<rparr>)"

text \<open>The effect that keeps the ref in sync (lines 208-212), with the \<^verbatim>\<open>id\<close> and
  \<^verbatim>\<open>elements\<close> of the render it runs after.\<close>

definition ref_sync_effect :: "string option \<Rightarrow> jsval list \<Rightarrow> board_view \<Rightarrow> board_view" where
  "ref_sync_effect ident es v =
     (case ident of
        None \<Rightarrow> v
      | Some i \<Rightarrow> v\<lparr>currentCanvasRef := (Str i, Arr es)\<rparr>)"

text \<open>The synchronous part of the load effect (lines 220-231): the canvas is cleared;
  the answer of the request is the event \<open>ApiLoaded\<close>.\<close>

definition load_effect ::
  "create_element \<Rightarrow> point_near \<Rightarrow> string option \<Rightarrow> board_view \<Rightarrow> board_view" where
  "load_effect ce near ident v = setHistory ce near [Arr []] (setElements ce near [] v)"

text \<open>The render that follows an event: the effect on \<^verbatim>\<open>[id, elements]\<close> sees the new
  board state. After a reducer error nothing is rendered.\<close>

definition rerender :: "board_view \<Rightarrow> board_view" where
  "rerender v = (if crashed v then v else ref_sync_effect (route v) (elements (board v)) v)"

text \<open>A change of the route parameter: the three effects run in the order of their
  declaration with the new \<^verbatim>\<open>id\<close> and the elements of that render, which are still those
  of the previous canvas; the dispatched clearing is rendered afterwards.\<close>

definition navigate ::
  "create_element \<Rightarrow> point_near \<Rightarrow> string option \<Rightarrow> board_view \<Rightarrow> board_view" where
  "navigate ce near ident v =
     (if mounted v \<and> route v = ident then v
      else
        let es = elements (board v);
            v1 = v\<lparr>mounted := True, route := ident\<rparr>;
            v2 = socket_effect ce near ident v1;
            v3 = ref_sync_effect ident es v2;
            v4 = load_effect ce near ident v3
        in v4)"

text \<open>The listeners registered by the socket effect (lines 150-166, 187, 193), live
  while a run of the effect is and its socket is the current instance. A throw of
  \<^verbatim>\<open>handleUnauthorized\<close> ends the listener; nothing was changed before it.\<close>

definition on_receiveDrawingUpdate ::
  "create_element \<Rightarrow> point_near \<Rightarrow> jsval \<Rightarrow> board_view \<Rightarrow> board_view" where
  "on_receiveDrawingUpdate ce near updatedElements v =
     (if listener v = None then v
      else if truthy updatedElements \<and> isArray updatedElements
      then (case validElements (items updatedElements) of
              Inr validEls \<Rightarrow> setElements ce near validEls v
            | Inl e \<Rightarrow> v)
      else v)"

definition on_loadCanvas ::
  "create_element \<Rightarrow> point_near \<Rightarrow> jsval \<Rightarrow> board_view \<Rightarrow> board_view" where
  "on_loadCanvas ce near initialElements v =
     (if listener v = None then v
      else if truthy initialElements \<and> isArray initialElements
      then (case validElements (items initialElements) of
              Inr validEls \<Rightarrow> setHistory ce near [Arr validEls] (setElements ce near validEls v)
            | Inl e \<Rightarrow> v)
      else v)"

definition on_unauthorized :: "jsval \<Rightarrow> board_view \<Rightarrow> board_view" where
  "on_unauthorized data v =
     (case listener v of
        None \<Rightarrow> v
      | Some cid \<Rightarrow> (case handleUnauthorized cid data v of Inr v' \<Rightarrow> v' | Inl e \<Rightarrow> v))"

text \<open>The current instance connects; the \<^verbatim>\<open>connect\<close> listener of line 193, when it is
  registered on this instance, joins the room.\<close>

definition on_connect :: "board_view \<Rightarrow> board_view" where
  "on_connect v0 =
     (if socketInstance v0 = None then v0
      else
        let v = v0\<lparr>connected := True\<rparr> in
        case listener v of
          None \<Rightarrow> v
        | Some cid \<Rightarrow> if connect_listener v then joinCanvasRoom cid v else v)"

text \<open>A timer of \<^verbatim>\<open>joinCanvasRoom\<close> or of the retry fires:
  \<^verbatim>\<open>socket.emit("joinCanvas", { canvasId: id })\<close>.\<close>

definition timer_fired :: "nat \<Rightarrow> board_view \<Rightarrow> board_view" where
  "timer_fired k v =
     (if k < length (timers v)
      then emit ''joinCanvas'' (Obj [(''canvasId'', Str (snd (timers v ! k)))])
             (v\<lparr>timers := take k (timers v) @ drop (Suc k) (timers v)\<rparr>)
      else v)"

text \<open>The answer of the load request (lines 262-267); a payload that is neither
  falsy nor an array throws inside the \<^verbatim>\<open>try\<close> and is only logged.\<close>

definition api_loaded ::
  "create_element \<Rightarrow> point_near \<Rightarrow> string \<Rightarrow> jsval \<Rightarrow> board_view \<Rightarrow> board_view" where
  "api_loaded ce near cid payload v =
     (if truthy payload \<and> \<not> isArray payload then v
      else (case validElements (if truthy payload then items payload else []) of
              Inr canvasElements \<Rightarrow>
                setHistory ce near [Arr canvasElements]
                  (setElements ce near canvasElements (setCanvasId ce near cid v))
            | Inl e \<Rightarrow> v))"

fun handle :: "create_element \<Rightarrow> point_near \<Rightarrow> event \<Rightarrow> board_view \<Rightarrow> board_view" where
  "handle ce near (Navigate ident) v = navigate ce near ident v"
| "handle ce near (MouseDown x y stroke fill sz) v = handleMouseDown ce near x y stroke fill sz v"
| "handle ce near (MouseMove x y) v = handleMouseMove ce near x y v"
| "handle ce near MouseUp v = handleMouseUp ce near v"
| "handle ce near (TextBlur txt) v = dispatchBoardAction ce near (CHANGE_TEXT txt) v"
| "handle ce near KeyUndo v = dispatchBoardAction ce near UNDO v"
| "handle ce near KeyRedo v = dispatchBoardAction ce near REDO v"
| "handle ce near (ReceiveDrawingUpdate payload) v = on_receiveDrawingUpdate ce near payload v"
| "handle ce near (LoadCanvas payload) v = on_loadCanvas ce near payload v"
| "handle ce near (Unauthorized data) v = on_unauthorized data v"
| "handle ce near SocketConnect v = on_connect v"
| "handle ce near SocketDisconnect v = v\<lparr>connected := False\<rparr>"
| "handle ce near (TimerFired k) v = timer_fired k v"
| "handle ce near (ApiLoaded cid payload) v = api_loaded ce near cid payload v"

definition step :: "create_element \<Rightarrow> point_near \<Rightarrow> board_view \<Rightarrow> event \<Rightarrow> board_view" where
  "step ce near v ev = (if crashed v then v else rerender (handle ce near ev v))"

definition run :: "create_element \<Rightarrow> point_near \<Rightarrow> board_view \<Rightarrow> event list \<Rightarrow> board_view" where
  "run ce near v evs = foldl (step ce near) v evs"

subsection \<open>Vocabulary of the component properties\<close>

fun is_alert :: "effect \<Rightarrow> bool" where
  "is_alert (Alert m) = True"
| "is_alert e = False"

fun is_broadcast :: "effect \<Rightarrow> bool" where
  "is_broadcast (Emit ev payload) = (ev = ''drawingUpdate'')"
| "is_broadcast e = False"





text \<open>The retries of a join: the timers set with the delay of
  \<^verbatim>\<open>handleUnauthorized\<close>, 500 ms (\<^verbatim>\<open>joinCanvasRoom\<close> waits 300 ms).\<close>

fun is_retry :: "effect \<Rightarrow> bool" where
  "is_retry (SetTimeout delay cid) = (delay = 500)"
| "is_retry e = False"


subsection \<open>Example views\<close>


text \<open>One stroke drawn and pushed on canvas A, a second one begun.\<close>

definition second_stroke_view :: board_view where
  "second_stroke_view =
     run example_createElement example_near (initial_view True True)
       [Navigate (Some ''canvasA''),
        MouseDown (Num 1) (Num 2) (Str ''black'') Undefined (Num 4),
        MouseMove (Num 5) (Num 6),
        MouseUp,
        MouseDown (Num 10) (Num 20) (Str ''black'') Undefined (Num 4),
        MouseMove (Num 11) (Num 21)]"

definition drawing_view :: board_view where
  "drawing_view =
     run example_createElement example_near (initial_view True True)
       [Navigate (Some ''canvasA''),
        MouseDown (Num 1) (Num 2) (Str ''black'') Undefined (Num 4),
        MouseMove (Num 5) (Num 6)]"


section \<open>Properties of the valid-elements filter\<close>

lemma el_and_type_total: "\<exists>r. el_and_type el = Inr r \<and> truthy r = has_type el"
  by (cases el) (auto simp: el_and_type_def has_type_def split: option.splits)

lemma filter_cb_el_and_type: "filter_cb el_and_type xs = Inr (filter has_type xs)"
proof (induction xs)
  case Nil
  show ?case by simp
next
  case (Cons x xs)
  obtain r where r: "el_and_type x = Inr r" "truthy r = has_type x"
    using el_and_type_total by blast
  show ?case by (simp add: r Cons.IH)
qed

lemma validElements_filter: "validElements xs = Inr (filter has_type xs)"
  by (simp add: validElements_def filter_cb_el_and_type)

text \<open>
  Claim C6, as stated: every list that comes out of the valid-elements filter holds only
  elements with a recognized type. The filter tests that \<^verbatim>\<open>type\<close> is present and truthy,
  not that it is one of the six recognized tags: an element tagged \<^verbatim>\<open>"banana"\<close> passes.
\<close>

theorem validElements_unrecognized_counterexample:
  "validElements [Obj [(''type'', Str ''banana'')]] = Inr [Obj [(''type'', Str ''banana'')]]
   \<and> \<not> has_recognized_type (Obj [(''type'', Str ''banana'')])"
  by (simp add: validElements_def el_and_type_def has_recognized_type_def
      recognized_types_def LINE_def RECTANGLE_def CIRCLE_def ARROW_def BRUSH_def TEXT_def)

text \<open>
  Claim C6, amended: for every input list the valid-elements filter never throws and
  returns, in their order, exactly the entries that are objects with a truthy \<^verbatim>\<open>type\<close>
  property; the mixed list \<^verbatim>\<open>[{type:"line", x1:0}, {foo:1}, null]\<close> filters to exactly
  its one line element.
\<close>

theorem validElements_keeps_typed:
  "validElements xs =
     Inr (filter (\<lambda>el. \<exists>kvs t. el = Obj kvs \<and> map_of kvs ''type'' = Some t \<and> truthy t) xs)
   \<and> validElements
       [Obj [(''type'', Str LINE), (''x1'', Num 0)], Obj [(''foo'', Num 1)], Null]
     = Inr [Obj [(''type'', Str LINE), (''x1'', Num 0)]]"
proof -
  have "has_type = (\<lambda>el. \<exists>kvs t. el = Obj kvs \<and> map_of kvs ''type'' = Some t \<and> truthy t)"
    by (rule ext) (auto simp: has_type_def split: jsval.splits option.splits)
  then have "validElements xs =
     Inr (filter (\<lambda>el. \<exists>kvs t. el = Obj kvs \<and> map_of kvs ''type'' = Some t \<and> truthy t) xs)"
    using validElements_filter [of xs] by simp
  moreover have "validElements
       [Obj [(''type'', Str LINE), (''x1'', Num 0)], Obj [(''foo'', Num 1)], Null]
     = Inr [Obj [(''type'', Str LINE), (''x1'', Num 0)]]"
    by (simp add: validElements_filter has_type_def LINE_def)
  ultimately show ?thesis by simp
qed


section \<open>Properties of the copy, undo and redo\<close>

lemma copy_element_Obj: "copy_element (Obj kvs) = Inr (copied (Obj kvs))"
  by (auto simp: copy_element_def copied_def and_then_def Let_def split: option.splits jsval.splits)

lemma copy_element_has_type: "has_type el \<Longrightarrow> copy_element el = Inr (copied el)"
  by (cases el) (simp_all add: has_type_def copy_element_Obj)

lemma map_cb_copy: "list_all has_type xs \<Longrightarrow> map_cb copy_element xs = Inr (map copied xs)"
  by (induction xs) (simp_all add: copy_element_has_type)

lemma copy_valid: 
  "and_then (validElements xs) (\<lambda>v. and_then (map_cb copy_element v) f) = f (snapshot_of xs)"
  by (simp add: validElements_filter and_then_def snapshot_of_def map_cb_copy list_all_iff)

lemma draw_up_eq:
  "draw_up s =
     Inr (s\<lparr>history := Some (slice0 (case history s of Some h \<Rightarrow> h | None \<Rightarrow> []) (index s + 1)
                               @ [Arr (snapshot_of (elements s))]),
            index := index s + 1\<rparr>)"
  unfolding draw_up_def copy_valid by (simp add: Let_def)

lemma isArray_iff: "isArray v \<longleftrightarrow> (\<exists>xs. v = Arr xs)"
  by (cases v) simp_all

lemma not_array_test: "(\<not> truthy v \<or> \<not> isArray v) = (\<not> isArray v)"
  by (cases v) simp_all

lemma array_test: "(truthy v \<and> isArray v) = isArray v"
  by (cases v) simp_all

lemma undo_eq:
  "undo s =
     (case history s of
        None \<Rightarrow> Inr s
      | Some h \<Rightarrow>
          if index s \<le> 0 then Inr s
          else if isArray (at_index h (index s - 1))
          then Inr (s\<lparr>elements := snapshot_of (items (at_index h (index s - 1))),
                      index := index s - 1\<rparr>)
          else if isArray (at_index h 0)
          then Inr (s\<lparr>elements := items (at_index h 0), index := 0\<rparr>)
          else Inr s)"
  unfolding undo_def copy_valid not_array_test array_test
  by (auto simp: Let_def at_index_def split: option.splits)

lemma redo_eq:
  "redo s =
     (case history s of
        None \<Rightarrow> Inr s
      | Some h \<Rightarrow>
          if int (length h) - 1 \<le> index s then Inr s
          else if isArray (at_index h (index s + 1))
          then Inr (s\<lparr>elements := snapshot_of (items (at_index h (index s + 1))),
                      index := index s + 1\<rparr>)
          else if isArray (at_index h (int (length h) - 1))
          then Inr (s\<lparr>elements := items (json_copy (at_index h (int (length h) - 1))),
                      index := int (length h) - 1\<rparr>)
          else Inr s)"
  unfolding redo_def copy_valid not_array_test array_test
  by (auto simp: Let_def at_index_def split: option.splits)

lemma set_prop_same: "map_of kvs k = Some v \<Longrightarrow> set_prop k v kvs = kvs"
  by (induction kvs) (auto split: if_splits)

lemma copy_point_object: "is_object p \<Longrightarrow> copy_point p = p"
  by (cases p) (simp_all add: copy_point_def)

lemma copied_well_formed: "well_formed_element el \<Longrightarrow> copied el = el"
proof (cases el)
  case (Obj kvs)
  assume wf: "well_formed_element el"
  show ?thesis
  proof (cases "map_of kvs ''points''")
    case None
    then show ?thesis using Obj by (simp add: copied_def)
  next
    case (Some pts)
    show ?thesis
    proof (cases pts)
      case (Arr ps)
      have "list_all is_object ps"
        using wf Obj Some Arr by (simp add: well_formed_element_def)
      then have "map copy_point ps = ps"
        by (induction ps) (simp_all add: copy_point_object)
      then show ?thesis using Obj Some Arr by (simp add: copied_def set_prop_same)
    qed (use Obj Some in \<open>simp_all add: copied_def\<close>)
  qed
qed (simp_all add: well_formed_element_def has_type_def)

lemma snapshot_of_well_formed:
  "list_all well_formed_element es \<Longrightarrow> snapshot_of es = es"
  by (induction es) (simp_all add: snapshot_of_def copied_well_formed well_formed_element_def)


lemma slice0_in_range:
  "0 \<le> i \<Longrightarrow> slice0 xs (i + 1) = take (nat i + 1) xs"
  by (simp add: slice0_def nat_add_distrib)

lemma at_index_append_last:
  "at_index (xs @ [x]) (int (length xs)) = x"
  by (simp add: at_index_def)

lemma at_index_nth: "0 \<le> i \<Longrightarrow> i < int (length xs) \<Longrightarrow> at_index xs i = xs ! nat i"
  by (simp add: at_index_def)


section \<open>The history log\<close>

text \<open>
  Claim C2: on a history log (cursor inside the log), \<^verbatim>\<open>DRAW_UP\<close> keeps the entries
  \<open>0 .. index\<close>, appends the new snapshot and leaves \<open>index\<close> at the last position; and
  from a log of five snapshots with the cursor at 4, two undos (cursor 2) and one push give
  a log of length 4 with the cursor at 3.
\<close>

theorem draw_up_truncates_and_appends:
  "(history s = Some h \<and> 0 \<le> index s \<and> index s < int (length h) \<longrightarrow>
      (\<exists>s' h'. draw_up s = Inr s' \<and> history s' = Some h' \<and>
         h' = take (nat (index s) + 1) h @ [Arr (snapshot_of (elements s))] \<and>
         index s' = int (length h') - 1 \<and> elements s' = elements s))
   \<and> (history s = Some [Arr a0, Arr a1, Arr a2, Arr a3, Arr a4] \<and> index s = 4 \<longrightarrow>
      (\<exists>s2 s3 h3. dispatch_all ce near s [UNDO, UNDO] = Inr s2 \<and> index s2 = 2 \<and>
         boardReducer ce near s2 DRAW_UP = Inr s3 \<and>
         history s3 = Some h3 \<and> length h3 = 4 \<and> index s3 = 3))"
proof (intro conjI impI)
  assume a: "history s = Some h \<and> 0 \<le> index s \<and> index s < int (length h)"
  then have len: "length (take (nat (index s) + 1) h) = nat (index s) + 1"
    by auto
  show "\<exists>s' h'. draw_up s = Inr s' \<and> history s' = Some h' \<and>
         h' = take (nat (index s) + 1) h @ [Arr (snapshot_of (elements s))] \<and>
         index s' = int (length h') - 1 \<and> elements s' = elements s"
    using a len by (simp add: draw_up_eq slice0_in_range)
next
  assume a: "history s = Some [Arr a0, Arr a1, Arr a2, Arr a3, Arr a4] \<and> index s = 4"
  show "\<exists>s2 s3 h3. dispatch_all ce near s [UNDO, UNDO] = Inr s2 \<and> index s2 = 2 \<and>
         boardReducer ce near s2 DRAW_UP = Inr s3 \<and>
         history s3 = Some h3 \<and> length h3 = 4 \<and> index s3 = 3"
    using a by (simp add: undo_eq draw_up_eq at_index_def slice0_def)
qed

text \<open>The theorem at a consistent log of five snapshots with the cursor on the last.\<close>

theorem draw_up_truncates_and_appends_witness:
  "(\<exists>s' h'. draw_up five_snapshot_state = Inr s' \<and> history s' = Some h' \<and>
      h' = [Arr [], Arr [example_line], Arr [], Arr [example_brush],
            Arr [example_line, example_brush], Arr [example_line, example_brush]] \<and>
      index s' = 5)
   \<and> (\<exists>s2 s3 h3.
        dispatch_all example_createElement example_near five_snapshot_state [UNDO, UNDO] = Inr s2 \<and>
        index s2 = 2 \<and>
        boardReducer example_createElement example_near s2 DRAW_UP = Inr s3 \<and>
        history s3 = Some h3 \<and> length h3 = 4 \<and> index s3 = 3)"
  using draw_up_truncates_and_appends
    [of five_snapshot_state
        "[Arr [], Arr [example_line], Arr [], Arr [example_brush],
          Arr [example_line, example_brush]]"
        "[]" "[example_line]" "[]" "[example_brush]" "[example_line, example_brush]"
        example_createElement example_near]
  by (simp add: five_snapshot_state_def initialBoardState_def draw_up_eq undo_eq at_index_def
      slice0_def snapshot_of_def copied_def has_type_def example_line_def example_brush_def
      copy_point_def LINE_def BRUSH_def)

text \<open>
  Claim C3: for every board state undo and redo return a state, never an error. Undo with
  \<open>index \<le> 0\<close> is a no-op; undo whose target \<open>history[index - 1]\<close> is missing or not an
  array installs \<open>history[0]\<close> with \<open>index = 0\<close> when that is an array and is a no-op
  otherwise. Redo with \<open>index \<ge> history.length - 1\<close> is a no-op; redo whose target
  \<open>history[index + 1]\<close> is missing or not an array installs (a JSON copy of) the last
  snapshot with \<open>index = history.length - 1\<close> when that is an array and is a no-op
  otherwise.
\<close>

theorem undo_redo_never_throw:
  "(\<exists>s'. undo s = Inr s') \<and> (\<exists>s'. redo s = Inr s')
   \<and> (index s \<le> 0 \<longrightarrow> undo s = Inr s)
   \<and> (history s = Some h \<and> 0 < index s \<and> \<not> isArray (at_index h (index s - 1)) \<longrightarrow>
        undo s = (if isArray (at_index h 0)
                  then Inr (s\<lparr>elements := items (at_index h 0), index := 0\<rparr>)
                  else Inr s))
   \<and> ((\<forall>h. history s = Some h \<longrightarrow> int (length h) - 1 \<le> index s) \<longrightarrow> redo s = Inr s)
   \<and> (history s = Some h \<and> index s < int (length h) - 1
        \<and> \<not> isArray (at_index h (index s + 1)) \<longrightarrow>
        redo s = (if isArray (at_index h (int (length h) - 1))
                  then Inr (s\<lparr>elements := items (json_copy (at_index h (int (length h) - 1))),
                              index := int (length h) - 1\<rparr>)
                  else Inr s))"
proof (intro conjI impI)
  show "\<exists>s'. undo s = Inr s'"
    by (simp add: undo_eq split: option.splits)
  show "\<exists>s'. redo s = Inr s'"
    by (simp add: redo_eq split: option.splits)
  show "undo s = Inr s" if "index s \<le> 0"
    using that by (simp add: undo_eq split: option.splits)
  show "undo s = (if isArray (at_index h 0)
                  then Inr (s\<lparr>elements := items (at_index h 0), index := 0\<rparr>)
                  else Inr s)"
    if "history s = Some h \<and> 0 < index s \<and> \<not> isArray (at_index h (index s - 1))"
    using that by (simp add: undo_eq)
  show "redo s = Inr s" if "\<forall>h. history s = Some h \<longrightarrow> int (length h) - 1 \<le> index s"
    using that by (simp add: redo_eq split: option.splits)
  show "redo s = (if isArray (at_index h (int (length h) - 1))
                  then Inr (s\<lparr>elements := items (json_copy (at_index h (int (length h) - 1))),
                              index := int (length h) - 1\<rparr>)
                  else Inr s)"
    if "history s = Some h \<and> index s < int (length h) - 1
        \<and> \<not> isArray (at_index h (index s + 1))"
    using that by (simp add: redo_eq)
qed

text \<open>The theorem at a log whose middle entry is the number 7, with the cursor on the
  last entry and on the first.\<close>

theorem undo_redo_never_throw_witness:
  "undo ((initialBoardState True)\<lparr>history := Some damaged_log, index := 2\<rparr>)
     = Inr ((initialBoardState True)
              \<lparr>history := Some damaged_log, index := 0, elements := [example_line]\<rparr>)
   \<and> redo ((initialBoardState True)\<lparr>history := Some damaged_log, index := 2\<rparr>)
     = Inr ((initialBoardState True)\<lparr>history := Some damaged_log, index := 2\<rparr>)
   \<and> undo ((initialBoardState True)\<lparr>history := Some damaged_log, index := 0\<rparr>)
     = Inr ((initialBoardState True)\<lparr>history := Some damaged_log, index := 0\<rparr>)
   \<and> redo ((initialBoardState True)\<lparr>history := Some damaged_log, index := 0\<rparr>)
     = Inr ((initialBoardState True)
              \<lparr>history := Some damaged_log, index := 2, elements := [example_brush, Null]\<rparr>)"
  using undo_redo_never_throw
      [of "(initialBoardState True)\<lparr>history := Some damaged_log, index := 2\<rparr>" damaged_log]
    undo_redo_never_throw
      [of "(initialBoardState True)\<lparr>history := Some damaged_log, index := 0\<rparr>" damaged_log]
  by (simp add: damaged_log_def at_index_def initialBoardState_def example_brush_def)

lemma map_of_set_prop_other: "k' \<noteq> k \<Longrightarrow> map_of (set_prop k v kvs) k' = map_of kvs k'"
  by (induction kvs) auto

lemma map_of_set_prop_same: "map_of (set_prop k v kvs) k = Some v"
  by (induction kvs) auto

lemma copy_point_is_object: "is_object (copy_point p)"
  by (simp add: copy_point_def)

lemma copied_is_well_formed:
  assumes "has_type el"
  shows "well_formed_element (copied el)"
proof (cases el)
  case (Obj kvs)
  then obtain t where t: "map_of kvs ''type'' = Some t" "truthy t"
    using assms by (auto simp: has_type_def split: option.splits)
  show ?thesis
  proof (cases "map_of kvs ''points''")
    case None
    then show ?thesis using Obj t by (simp add: copied_def well_formed_element_def has_type_def)
  next
    case (Some pts)
    show ?thesis
    proof (cases pts)
      case (Arr ps)
      have "list_all is_object (map copy_point ps)"
        by (simp add: list_all_iff copy_point_is_object)
      then show ?thesis
        using Obj t Some Arr
        by (simp add: copied_def well_formed_element_def has_type_def
            map_of_set_prop_other map_of_set_prop_same)
    qed (use Obj t Some in \<open>simp_all add: copied_def well_formed_element_def has_type_def\<close>)
  qed
qed (use assms in \<open>simp_all add: has_type_def\<close>)

lemma snapshot_of_is_well_formed: "list_all well_formed_element (snapshot_of es)"
  by (simp add: snapshot_of_def list_all_iff copied_is_well_formed)

lemma snapshot_ok_items:
  "snapshot_ok v \<Longrightarrow> isArray v \<and> Arr (snapshot_of (items v)) = v"
  by (cases v) (simp_all add: snapshot_ok_def snapshot_of_well_formed)

lemma isArray_items: "isArray v \<Longrightarrow> Arr (items v) = v"
  by (cases v) simp_all

lemma ready_push:
  assumes "log_ready s"
  shows "\<exists>s'. draw_up s = Inr s' \<and> log_ready s' \<and> cursor_snapshot s' = Arr (elements s') \<and>
           elements s' = elements s \<and> index s' = index s + 1"
proof -
  from assms obtain h where h: "history s = Some h" "0 \<le> index s" "index s < int (length h)"
      "list_all isArray h" and live: "list_all well_formed_element (elements s)"
    by (auto simp: log_ready_def log_in_range_def split: option.splits)
  let ?h' = "take (nat (index s) + 1) h @ [Arr (elements s)]"
  let ?s' = "s\<lparr>history := Some ?h', index := index s + 1\<rparr>"
  have len: "length (take (nat (index s) + 1) h) = nat (index s) + 1"
    using h by auto
  have r: "draw_up s = Inr ?s'"
    using h live by (simp add: draw_up_eq slice0_in_range snapshot_of_well_formed)
  have cur: "at_index ?h' (index s + 1) = Arr (elements s)"
    using at_index_append_last [of "take (nat (index s) + 1) h" "Arr (elements s)"] len h(2)
    by (simp add: nat_add_distrib add.commute)
  have arrs: "list_all isArray ?h'"
    using h(4) by (auto simp: list_all_iff dest: in_set_takeD)
  have "log_ready ?s'"
    using h(2) len arrs live by (simp add: log_ready_def log_in_range_def)
  moreover have "cursor_snapshot ?s' = Arr (elements ?s')"
    using cur by (simp add: cursor_snapshot_def)
  ultimately show ?thesis using r by auto
qed

lemma ready_move:
  assumes "log_ready s" and "history s = Some h" and "0 \<le> i" and "i < int (length h)"
  shows "log_ready (s\<lparr>elements := snapshot_of (items (at_index h i)), index := i\<rparr>)"
    and "cursor_snapshot (s\<lparr>elements := snapshot_of (items (at_index h i)), index := i\<rparr>)
          = at_index h i"
    and "isArray (at_index h i)"
proof -
  have "list_all isArray h" using assms(1,2) by (simp add: log_ready_def)
  then show "isArray (at_index h i)"
    using assms(3,4) by (simp add: at_index_def list_all_length)
  show "log_ready (s\<lparr>elements := snapshot_of (items (at_index h i)), index := i\<rparr>)"
    using assms by (simp add: log_ready_def log_in_range_def snapshot_of_is_well_formed)
  show "cursor_snapshot (s\<lparr>elements := snapshot_of (items (at_index h i)), index := i\<rparr>)
          = at_index h i"
    using assms(2) by (simp add: cursor_snapshot_def)
qed

lemma ready_undo:
  assumes "log_ready s"
  shows "\<exists>s'. undo s = Inr s' \<and> log_ready s' \<and>
           (if index s \<le> 0 then s' = s
            else index s' = index s - 1 \<and>
                 elements s' = snapshot_of (items (cursor_snapshot s')) \<and>
                 (snapshot_ok (cursor_snapshot s') \<longrightarrow> cursor_snapshot s' = Arr (elements s')))"
proof -
  from assms obtain h where h: "history s = Some h" "0 \<le> index s" "index s < int (length h)"
    by (auto simp: log_ready_def log_in_range_def split: option.splits)
  show ?thesis
  proof (cases "index s \<le> 0")
    case True
    then show ?thesis using h assms by (simp add: undo_eq)
  next
    case False
    then have rng: "0 \<le> index s - 1" "index s - 1 < int (length h)" using h by auto
    let ?s' = "s\<lparr>elements := snapshot_of (items (at_index h (index s - 1))), index := index s - 1\<rparr>"
    note m = ready_move [OF assms h(1) rng]
    have "undo s = Inr ?s'" using False h m(3) by (simp add: undo_eq)
    moreover have "snapshot_ok (cursor_snapshot ?s') \<longrightarrow> cursor_snapshot ?s' = Arr (elements ?s')"
      using snapshot_ok_items [of "at_index h (index s - 1)"] m(2) by auto
    moreover have "elements ?s' = snapshot_of (items (cursor_snapshot ?s'))"
      using m(2) by simp
    ultimately show ?thesis using False m(1) by auto
  qed
qed

lemma ready_redo:
  assumes "log_ready s"
  shows "\<exists>s'. redo s = Inr s' \<and> log_ready s' \<and>
           (if log_length s - 1 \<le> index s then s' = s
            else index s' = index s + 1 \<and>
                 elements s' = snapshot_of (items (cursor_snapshot s')) \<and>
                 (snapshot_ok (cursor_snapshot s') \<longrightarrow> cursor_snapshot s' = Arr (elements s')))"
proof -
  from assms obtain h where h: "history s = Some h" "0 \<le> index s" "index s < int (length h)"
    by (auto simp: log_ready_def log_in_range_def split: option.splits)
  have ll: "log_length s = int (length h)" using h(1) by (simp add: log_length_def)
  show ?thesis
  proof (cases "int (length h) - 1 \<le> index s")
    case True
    then show ?thesis using h assms ll by (simp add: redo_eq)
  next
    case False
    then have rng: "0 \<le> index s + 1" "index s + 1 < int (length h)" using h by auto
    let ?s' = "s\<lparr>elements := snapshot_of (items (at_index h (index s + 1))), index := index s + 1\<rparr>"
    note m = ready_move [OF assms h(1) rng]
    have "redo s = Inr ?s'" using False h m(3) by (simp add: redo_eq)
    moreover have "snapshot_ok (cursor_snapshot ?s') \<longrightarrow> cursor_snapshot ?s' = Arr (elements ?s')"
      using snapshot_ok_items [of "at_index h (index s + 1)"] m(2) by auto
    moreover have "elements ?s' = snapshot_of (items (cursor_snapshot ?s'))"
      using m(2) by simp
    ultimately show ?thesis using False m(1) ll by auto
  qed
qed

lemma ready_step:
  assumes "log_ready s" and "a = DRAW_UP \<or> a = UNDO \<or> a = REDO"
  shows "\<exists>s'. boardReducer ce near s a = Inr s' \<and> log_ready s'"
  using assms ready_push [OF assms(1)] ready_undo [OF assms(1)] ready_redo [OF assms(1)]
  by auto

lemma ready_run:
  "log_ready s \<Longrightarrow> set acts \<subseteq> {DRAW_UP, UNDO, REDO} \<Longrightarrow>
   \<exists>s'. dispatch_all ce near s acts = Inr s' \<and> log_ready s'"
proof (induction acts arbitrary: s)
  case Nil
  then show ?case by simp
next
  case (Cons a acts)
  then have "a = DRAW_UP \<or> a = UNDO \<or> a = REDO" by auto
  from ready_step [OF Cons.prems(1) this] obtain s1
    where s1: "boardReducer ce near s a = Inr s1" "log_ready s1" by blast
  from Cons.IH [OF s1(2)] Cons.prems(2) obtain s'
    where "dispatch_all ce near s1 acts = Inr s'" "log_ready s'" by auto
  then show ?case using s1(1) by simp
qed

lemma dispatch_all_snoc:
  "dispatch_all ce near s acts = Inr s1 \<Longrightarrow>
   dispatch_all ce near s (acts @ [a]) = boardReducer ce near s1 a"
  by (induction acts arbitrary: s) (auto split: sum.splits)

text \<open>
  Claim C1, as stated: after every push, undo or redo applied to a board state whose
  elements all have a recognized type, \<open>history[index]\<close> equals the live collection.
  Redo at the last snapshot returns the state as it is (and so does undo at the first).
  In the component, with one brush stroke drawn and pushed and a second one begun
  (pointer down, one move, no pointer up yet), \<^verbatim>\<open>Ctrl+Y\<close> dispatches \<^verbatim>\<open>REDO\<close>: the state
  comes back unchanged, its two elements have the type brush, \<open>index\<close> is within the
  history, and \<open>history[index]\<close> is the snapshot of the first stroke alone.
\<close>

theorem history_invariant_counterexample:
  "second_stroke_view =
     run example_createElement example_near (initial_view True True)
       [Navigate (Some ''canvasA''),
        MouseDown (Num 1) (Num 2) (Str ''black'') Undefined (Num 4),
        MouseMove (Num 5) (Num 6),
        MouseUp,
        MouseDown (Num 10) (Num 20) (Str ''black'') Undefined (Num 4),
        MouseMove (Num 11) (Num 21)]
   \<and> \<not> crashed second_stroke_view
   \<and> list_all has_recognized_type (elements (board second_stroke_view))
   \<and> length (elements (board second_stroke_view)) = 2
   \<and> log_in_range (board second_stroke_view)
   \<and> index (board second_stroke_view) = 1
   \<and> boardReducer example_createElement example_near (board second_stroke_view) REDO
       = Inr (board second_stroke_view)
   \<and> board (step example_createElement example_near second_stroke_view KeyRedo)
       = board second_stroke_view
   \<and> cursor_snapshot (board second_stroke_view)
       = Arr [hd (elements (board second_stroke_view))]
   \<and> cursor_snapshot (board second_stroke_view) \<noteq> Arr (elements (board second_stroke_view))"
proof -
  have d: "second_stroke_view =
     run example_createElement example_near (initial_view True True)
       [Navigate (Some ''canvasA''),
        MouseDown (Num 1) (Num 2) (Str ''black'') Undefined (Num 4),
        MouseMove (Num 5) (Num 6),
        MouseUp,
        MouseDown (Num 10) (Num 20) (Str ''black'') Undefined (Num 4),
        MouseMove (Num 11) (Num 21)]"
    by (rule second_stroke_view_def)
  have c: "\<not> crashed second_stroke_view" by code_simp
  have t: "list_all has_recognized_type (elements (board second_stroke_view))" by code_simp
  have n: "length (elements (board second_stroke_view)) = 2" by code_simp
  have r: "log_in_range (board second_stroke_view)" by code_simp
  have i: "index (board second_stroke_view) = 1" by code_simp
  have o: "boardReducer example_createElement example_near (board second_stroke_view) REDO
       = Inr (board second_stroke_view)" by code_simp
  have k: "board (step example_createElement example_near second_stroke_view KeyRedo)
       = board second_stroke_view" by code_simp
  have s: "cursor_snapshot (board second_stroke_view)
       = Arr [hd (elements (board second_stroke_view))]" by code_simp
  have m: "cursor_snapshot (board second_stroke_view) \<noteq> Arr (elements (board second_stroke_view))"
    by code_simp
  show ?thesis using d c t n r i o k s m by blast
qed

text \<open>
  Claim C1, amended: from a board state whose \<open>index\<close> is within the history, whose
  history entries are arrays and whose live elements have a type and points that are
  objects, every sequence of pushes, undos and redos runs without a throw, and after
  each operation \<open>0 \<le> index < history.length\<close>. After a push, \<open>history[index]\<close> equals the
  live collection, which the push leaves as it is. An undo at index 0 and a redo at the
  last index return the state unchanged. Any other undo or redo moves \<open>index\<close> by one and
  makes the live collection the copy of the entries of \<open>history[index]\<close> that have a type;
  \<open>history[index]\<close> equals the live collection then whenever that snapshot is a sequence
  of elements that have a type and whose points are objects.
\<close>

theorem history_operations_settle:
  assumes "log_ready s" and "set acts \<subseteq> {DRAW_UP, UNDO, REDO}" and "k < length acts"
  shows "\<exists>s1 s2.
      dispatch_all ce near s (take k acts) = Inr s1 \<and>
      dispatch_all ce near s (take (Suc k) acts) = Inr s2 \<and>
      boardReducer ce near s1 (acts ! k) = Inr s2 \<and>
      log_in_range s2 \<and>
      (acts ! k = DRAW_UP \<longrightarrow>
         cursor_snapshot s2 = Arr (elements s2) \<and> elements s2 = elements s1) \<and>
      (acts ! k = UNDO \<longrightarrow>
         (if index s1 \<le> 0 then s2 = s1
          else index s2 = index s1 - 1 \<and>
               elements s2 = snapshot_of (items (cursor_snapshot s2)) \<and>
               (snapshot_ok (cursor_snapshot s2) \<longrightarrow> cursor_snapshot s2 = Arr (elements s2)))) \<and>
      (acts ! k = REDO \<longrightarrow>
         (if log_length s1 - 1 \<le> index s1 then s2 = s1
          else index s2 = index s1 + 1 \<and>
               elements s2 = snapshot_of (items (cursor_snapshot s2)) \<and>
               (snapshot_ok (cursor_snapshot s2) \<longrightarrow> cursor_snapshot s2 = Arr (elements s2))))"
proof -
  have "set (take k acts) \<subseteq> {DRAW_UP, UNDO, REDO}"
    using assms(2) by (meson set_take_subset subset_trans)
  from ready_run [OF assms(1) this] obtain s1
    where s1: "dispatch_all ce near s (take k acts) = Inr s1" "log_ready s1" by blast
  have tk: "take (Suc k) acts = take k acts @ [acts ! k]"
    using assms(3) by (simp add: take_Suc_conv_app_nth)
  have ak: "acts ! k = DRAW_UP \<or> acts ! k = UNDO \<or> acts ! k = REDO"
    using assms(2,3) by (metis insertE nth_mem singletonD subsetD)
  from ready_step [OF s1(2) ak] obtain s2
    where s2: "boardReducer ce near s1 (acts ! k) = Inr s2" "log_ready s2" by blast
  have d2: "dispatch_all ce near s (take (Suc k) acts) = Inr s2"
    unfolding tk using dispatch_all_snoc [OF s1(1)] s2(1) by simp
  have rng: "log_in_range s2" using s2(2) by (simp add: log_ready_def)
  have p: "acts ! k = DRAW_UP \<longrightarrow>
         cursor_snapshot s2 = Arr (elements s2) \<and> elements s2 = elements s1"
  proof
    assume a: "acts ! k = DRAW_UP"
    from ready_push [OF s1(2)] obtain s' where s':
      "draw_up s1 = Inr s'" "cursor_snapshot s' = Arr (elements s')" "elements s' = elements s1"
      by blast
    have e: "s' = s2" using s'(1) s2(1) a by simp
    show "cursor_snapshot s2 = Arr (elements s2) \<and> elements s2 = elements s1"
      using s'(2,3) unfolding e by simp
  qed
  have u: "acts ! k = UNDO \<longrightarrow>
         (if index s1 \<le> 0 then s2 = s1
          else index s2 = index s1 - 1 \<and>
               elements s2 = snapshot_of (items (cursor_snapshot s2)) \<and>
               (snapshot_ok (cursor_snapshot s2) \<longrightarrow> cursor_snapshot s2 = Arr (elements s2)))"
  proof
    assume a: "acts ! k = UNDO"
    from ready_undo [OF s1(2)] obtain s' where s':
      "undo s1 = Inr s'"
      "if index s1 \<le> 0 then s' = s1
          else index s' = index s1 - 1 \<and>
               elements s' = snapshot_of (items (cursor_snapshot s')) \<and>
               (snapshot_ok (cursor_snapshot s') \<longrightarrow> cursor_snapshot s' = Arr (elements s'))"
      by blast
    have e: "s' = s2" using s'(1) s2(1) a by simp
    show "if index s1 \<le> 0 then s2 = s1
          else index s2 = index s1 - 1 \<and>
               elements s2 = snapshot_of (items (cursor_snapshot s2)) \<and>
               (snapshot_ok (cursor_snapshot s2) \<longrightarrow> cursor_snapshot s2 = Arr (elements s2))"
      using s'(2) unfolding e .
  qed
  have r: "acts ! k = REDO \<longrightarrow>
         (if log_length s1 - 1 \<le> index s1 then s2 = s1
          else index s2 = index s1 + 1 \<and>
               elements s2 = snapshot_of (items (cursor_snapshot s2)) \<and>
               (snapshot_ok (cursor_snapshot s2) \<longrightarrow> cursor_snapshot s2 = Arr (elements s2)))"
  proof
    assume a: "acts ! k = REDO"
    from ready_redo [OF s1(2)] obtain s' where s':
      "redo s1 = Inr s'"
      "if log_length s1 - 1 \<le> index s1 then s' = s1
          else index s' = index s1 + 1 \<and>
               elements s' = snapshot_of (items (cursor_snapshot s')) \<and>
               (snapshot_ok (cursor_snapshot s') \<longrightarrow> cursor_snapshot s' = Arr (elements s'))"
      by blast
    have e: "s' = s2" using s'(1) s2(1) a by simp
    show "if log_length s1 - 1 \<le> index s1 then s2 = s1
          else index s2 = index s1 + 1 \<and>
               elements s2 = snapshot_of (items (cursor_snapshot s2)) \<and>
               (snapshot_ok (cursor_snapshot s2) \<longrightarrow> cursor_snapshot s2 = Arr (elements s2))"
      using s'(2) unfolding e .
  qed
  show ?thesis
    by (intro exI [of _ s1] exI [of _ s2] conjI) (fact s1(1) d2 s2(1) rng p u r)+
qed

text \<open>The theorem at the second stroke begun in the component: a push, then the undo
  that follows it.\<close>

theorem history_operations_settle_witness:
  "log_ready (board second_stroke_view)
   \<and> (\<exists>s1 s2.
      dispatch_all example_createElement example_near (board second_stroke_view)
        (take 1 [DRAW_UP, UNDO, UNDO, REDO]) = Inr s1 \<and>
      dispatch_all example_createElement example_near (board second_stroke_view)
        (take (Suc 1) [DRAW_UP, UNDO, UNDO, REDO]) = Inr s2 \<and>
      boardReducer example_createElement example_near s1 ([DRAW_UP, UNDO, UNDO, REDO] ! 1)
        = Inr s2 \<and>
      log_in_range s2 \<and>
      index s1 = 2 \<and> index s2 = 1 \<and>
      elements s2 = snapshot_of (items (cursor_snapshot s2)))"
proof -
  let ?acts = "[DRAW_UP, UNDO, UNDO, REDO]"
  have r: "log_ready (board second_stroke_view)" by code_simp
  have a: "set ?acts \<subseteq> {DRAW_UP, UNDO, REDO}" by simp
  have k: "(1::nat) < length ?acts" by simp
  have i: "index (board second_stroke_view) = 1" by code_simp
  from history_operations_settle [OF r a k, of example_createElement example_near]
  obtain s1 s2 where s:
    "dispatch_all example_createElement example_near (board second_stroke_view) (take 1 ?acts)
       = Inr s1"
    "dispatch_all example_createElement example_near (board second_stroke_view)
       (take (Suc 1) ?acts) = Inr s2"
    "boardReducer example_createElement example_near s1 (?acts ! 1) = Inr s2"
    "log_in_range s2"
    "?acts ! 1 = UNDO \<longrightarrow>
         (if index s1 \<le> 0 then s2 = s1
          else index s2 = index s1 - 1 \<and>
               elements s2 = snapshot_of (items (cursor_snapshot s2)) \<and>
               (snapshot_ok (cursor_snapshot s2) \<longrightarrow> cursor_snapshot s2 = Arr (elements s2)))"
    by blast
  have "draw_up (board second_stroke_view) = Inr s1"
    using s(1) by (simp split: sum.splits)
  then have i1: "index s1 = 2"
    using i by (auto simp: draw_up_def and_then_def Let_def split: sum.splits)
  have u: "index s2 = 1 \<and> elements s2 = snapshot_of (items (cursor_snapshot s2))"
    using s(5) i1 by simp
  show ?thesis
    using r s(1,2,3,4) i1 u by blast
qed


section \<open>Pointer moves and erasing\<close>

lemma get_Obj_prop: "get (Obj kvs) k = Inr (prop_val kvs k)"
  by (simp add: prop_val_def)

lemma at_index_last: "at_index (es @ [el]) (int (length (es @ [el])) - 1) = el"
  by (simp add: at_index_def)

lemma last_index: "int (length (es @ [el])) - 1 = int (length es)"
  by simp

lemma update_last: "(es @ [el])[nat (int (length (es @ [el])) - 1) := v] = es @ [v]"
  by simp

lemma tags_distinct:
  "LINE \<noteq> BRUSH" "RECTANGLE \<noteq> BRUSH" "CIRCLE \<noteq> BRUSH" "ARROW \<noteq> BRUSH"
  "TEXT \<noteq> LINE" "TEXT \<noteq> RECTANGLE" "TEXT \<noteq> CIRCLE" "TEXT \<noteq> ARROW" "TEXT \<noteq> BRUSH"
  by (simp_all add: LINE_def RECTANGLE_def CIRCLE_def ARROW_def BRUSH_def TEXT_def)

lemma draw_move_last:
  assumes "elements s = es @ [el]"
  shows "draw_move ce s x y =
     and_then (get el ''type'') (\<lambda>ty.
       if ty = Str LINE \<or> ty = Str RECTANGLE \<or> ty = Str CIRCLE \<or> ty = Str ARROW
       then
         and_then (get el ''x1'') (\<lambda>x1.
         and_then (get el ''y1'') (\<lambda>y1.
         and_then (get el ''stroke'') (\<lambda>stroke.
         and_then (get el ''fill'') (\<lambda>fill.
         and_then (get el ''size'') (\<lambda>sz.
           Inr (s\<lparr>elements := es @ [ce (int (length es)) x1 y1 x y
                   (element_options (activeToolItem s) stroke fill sz)]\<rparr>))))))
       else if ty = Str BRUSH
       then
         and_then (get el ''points'') (\<lambda>points.
         and_then (iterate points) (\<lambda>ps.
         and_then (assign_points el (Arr (ps @ [Obj [(''x'', x), (''y'', y)]]))) (\<lambda>el'.
           Inr (s\<lparr>elements := es @ [el']\<rparr>))))
       else Inl (Error ''Type not recognized''))"
  unfolding draw_move_def Let_def assms at_index_last update_last unfolding last_index ..

text \<open>
  Claim C4, as stated: a \<^verbatim>\<open>DRAW_MOVE\<close> in the drawing phase throws exactly when the
  last element's type is outside line, rectangle, circle, arrow, brush, text. The
  \<^verbatim>\<open>switch\<close> has no case for text: a last element of the recognized type text throws.
\<close>

theorem draw_move_text_counterexample:
  "draw_move example_createElement
     (mid_gesture_state\<lparr>elements := [example_line, example_text]\<rparr>) (Num 7) (Num 8)
     = Inl (Error ''Type not recognized'')
   \<and> has_recognized_type example_text
   \<and> toolActionType (mid_gesture_state\<lparr>elements := [example_line, example_text]\<rparr>) = DRAWING"
  by (simp add: draw_move_def mid_gesture_state_def initialBoardState_def at_index_def
      and_then_def has_recognized_type_def recognized_types_def example_text_def
      LINE_def RECTANGLE_def CIRCLE_def ARROW_def BRUSH_def TEXT_def)

text \<open>
  Claim C4, amended: when the last element is a line, rectangle, circle or arrow,
  \<^verbatim>\<open>DRAW_MOVE\<close> does not throw and replaces it by the element \<^verbatim>\<open>createElement\<close> builds
  from its \<^verbatim>\<open>x1\<close>, \<^verbatim>\<open>y1\<close>, \<^verbatim>\<open>stroke\<close>, \<^verbatim>\<open>fill\<close>, \<^verbatim>\<open>size\<close>, the pointer location as end point and
  the active tool as type; when it is a brush whose \<^verbatim>\<open>points\<close> is an array, it does not
  throw and appends the pointer location to that array; and it throws
  \<^verbatim>\<open>Error("Type not recognized")\<close> exactly when the last element is neither
  \<^verbatim>\<open>undefined\<close> nor \<^verbatim>\<open>null\<close> and its type is none of line, rectangle, circle, arrow,
  brush (so also for text).
\<close>

theorem draw_move_cases:
  "(elements s = es @ [Obj kvs] \<and>
      prop_val kvs ''type'' \<in> {Str LINE, Str RECTANGLE, Str CIRCLE, Str ARROW} \<longrightarrow>
      draw_move ce s x y =
        Inr (s\<lparr>elements := es @ [ce (int (length es)) (prop_val kvs ''x1'') (prop_val kvs ''y1'') x y
               (element_options (activeToolItem s) (prop_val kvs ''stroke'') (prop_val kvs ''fill'')
                  (prop_val kvs ''size''))]\<rparr>))
   \<and> (elements s = es @ [Obj kvs] \<and> prop_val kvs ''type'' = Str BRUSH \<and>
      prop_val kvs ''points'' = Arr ps \<longrightarrow>
      draw_move ce s x y =
        Inr (s\<lparr>elements :=
               es @ [Obj (set_prop ''points'' (Arr (ps @ [Obj [(''x'', x), (''y'', y)]])) kvs)]\<rparr>))
   \<and> (elements s = es @ [el] \<longrightarrow>
      (draw_move ce s x y = Inl (Error ''Type not recognized'') \<longleftrightarrow>
         (\<exists>ty. get el ''type'' = Inr ty \<and>
               ty \<notin> {Str LINE, Str RECTANGLE, Str CIRCLE, Str ARROW, Str BRUSH})))"
proof (intro conjI impI)
  assume a: "elements s = es @ [Obj kvs] \<and>
      prop_val kvs ''type'' \<in> {Str LINE, Str RECTANGLE, Str CIRCLE, Str ARROW}"
  then have e: "elements s = es @ [Obj kvs]" by simp
  show "draw_move ce s x y =
        Inr (s\<lparr>elements := es @ [ce (int (length es)) (prop_val kvs ''x1'') (prop_val kvs ''y1'') x y
               (element_options (activeToolItem s) (prop_val kvs ''stroke'') (prop_val kvs ''fill'')
                  (prop_val kvs ''size''))]\<rparr>)"
    using a unfolding draw_move_last [OF e] get_Obj_prop and_then_def by auto
next
  assume a: "elements s = es @ [Obj kvs] \<and> prop_val kvs ''type'' = Str BRUSH \<and>
      prop_val kvs ''points'' = Arr ps"
  then have e: "elements s = es @ [Obj kvs]" by simp
  show "draw_move ce s x y =
        Inr (s\<lparr>elements :=
               es @ [Obj (set_prop ''points'' (Arr (ps @ [Obj [(''x'', x), (''y'', y)]])) kvs)]\<rparr>)"
    using a unfolding draw_move_last [OF e] get_Obj_prop and_then_def
    by (simp add: tags_distinct [symmetric])
next
  assume e: "elements s = es @ [el]"
  show "draw_move ce s x y = Inl (Error ''Type not recognized'') \<longleftrightarrow>
         (\<exists>ty. get el ''type'' = Inr ty \<and>
               ty \<notin> {Str LINE, Str RECTANGLE, Str CIRCLE, Str ARROW, Str BRUSH})"
  proof (cases el)
    case (Obj kvs)
    show ?thesis
    proof (cases "prop_val kvs ''type'' = Str BRUSH")
      case True
      show ?thesis
        unfolding draw_move_last [OF e] Obj get_Obj_prop and_then_def
        using True
        by (cases "prop_val kvs ''points''") (simp_all add: tags_distinct [symmetric])
    next
      case False
      then show ?thesis
        unfolding draw_move_last [OF e] Obj get_Obj_prop and_then_def by auto
    qed
  qed (simp_all add: draw_move_last [OF e] and_then_def)
qed


text \<open>The theorem at a line, at a brush stroke of one point, and at an element tagged
  with the eraser.\<close>

theorem draw_move_cases_witness:
  "draw_move example_createElement mid_gesture_state (Num 50) (Num 60)
     = Inr (mid_gesture_state
              \<lparr>elements :=
                 [Obj [(''id'', Num 0), (''x1'', Num 10), (''y1'', Num 10), (''x2'', Num 50),
                       (''y2'', Num 60), (''type'', Str LINE), (''stroke'', Str ''black''),
                       (''fill'', Undefined), (''size'', Num 1)]]\<rparr>)
   \<and> draw_move example_createElement
       (mid_gesture_state\<lparr>elements := [example_line, example_brush]\<rparr>) (Num 3) (Num 4)
     = Inr (mid_gesture_state
              \<lparr>elements :=
                 [example_line,
                  Obj [(''id'', Num 1),
                       (''points'', Arr [Obj [(''x'', Num 1), (''y'', Num 2)],
                                         Obj [(''x'', Num 3), (''y'', Num 4)]]),
                       (''type'', Str BRUSH), (''stroke'', Str ''black'')]]\<rparr>)
   \<and> draw_move example_createElement
       (mid_gesture_state\<lparr>elements := [Obj [(''type'', Str ERASER)]]\<rparr>) (Num 3) (Num 4)
     = Inl (Error ''Type not recognized'')"
  using draw_move_cases
      [of mid_gesture_state "[]"
          "[(''id'', Num 0), (''x1'', Num 10), (''y1'', Num 10), (''x2'', Num 40),
            (''y2'', Num 20), (''type'', Str LINE), (''stroke'', Str ''black''),
            (''size'', Num 1)]"
          example_createElement "Num 50" "Num 60"]
    draw_move_cases
      [of "mid_gesture_state\<lparr>elements := [example_line, example_brush]\<rparr>" "[example_line]"
          "[(''id'', Num 1), (''points'', Arr [Obj [(''x'', Num 1), (''y'', Num 2)]]),
            (''type'', Str BRUSH), (''stroke'', Str ''black'')]"
          example_createElement "Num 3" "Num 4" "[Obj [(''x'', Num 1), (''y'', Num 2)]]"]
    draw_move_cases
      [of "mid_gesture_state\<lparr>elements := [Obj [(''type'', Str ERASER)]]\<rparr>" "[]" "[]"
          example_createElement "Num 3" "Num 4" "[]" "Obj [(''type'', Str ERASER)]"]
  by (simp add: mid_gesture_state_def initialBoardState_def example_line_def
      example_brush_def example_createElement_def element_options_def prop_val_def
      LINE_def RECTANGLE_def CIRCLE_def ARROW_def BRUSH_def ERASER_def)

lemma erase_keep_filter:
  "filter_cb (erase_keep near x y) xs = Inr (filter (\<lambda>el. has_type el \<and> \<not> near el x y) xs)"
proof (induction xs)
  case Nil
  show ?case by simp
next
  case (Cons el xs)
  have "\<exists>r. erase_keep near x y el = Inr r \<and> truthy r = (has_type el \<and> \<not> near el x y)"
    by (cases el) (auto simp: erase_keep_def and_then_def has_type_def split: option.splits)
  then obtain r where "erase_keep near x y el = Inr r"
      "truthy r = (has_type el \<and> \<not> near el x y)" by blast
  then show ?case by (simp add: Cons.IH)
qed

text \<open>
  Claim C5, as stated: an erase pass that removes no element does not grow the history.
  \<^verbatim>\<open>ERASE\<close> pushes on every pass: with one line far from the pointer, the collection is
  unchanged and the log grows from two snapshots to three.
\<close>

theorem erase_idle_pass_counterexample:
  "erase example_near
     ((initialBoardState True)
        \<lparr>elements := [example_line], history := Some [Arr [], Arr [example_line]],
         index := 1\<rparr>) (Num 500) (Num 500)
   = Inr ((initialBoardState True)
            \<lparr>elements := [example_line],
             history := Some [Arr [], Arr [example_line], Arr [example_line]],
             index := 2\<rparr>)"
  by (simp add: erase_def erase_keep_def and_then_def slice0_def initialBoardState_def
      example_near_def example_line_def LINE_def)

text \<open>
  Claim C5, amended: every \<^verbatim>\<open>ERASE\<close> pass succeeds, makes the live collection the previous
  collection restricted to the elements that have a type and are not near the pointer
  (\<^verbatim>\<open>isPointNearElement\<close> false), and pushes that collection as a new snapshot after the
  entries \<open>0 .. index\<close>, advancing \<open>index\<close> by one, whether or not an element was removed.
\<close>

theorem erase_always_pushes:
  "erase near s x y =
     Inr (s\<lparr>elements := filter (\<lambda>el. has_type el \<and> \<not> near el x y) (elements s),
            history :=
              Some (slice0 (case history s of Some h \<Rightarrow> h | None \<Rightarrow> []) (index s + 1)
                    @ [Arr (filter (\<lambda>el. has_type el \<and> \<not> near el x y) (elements s))]),
            index := index s + 1\<rparr>)"
  by (simp add: erase_def erase_keep_filter and_then_def Let_def)

section \<open>Identity and sharing in the store\<close>

lemma cell_at_append: "a < length st \<Longrightarrow> cell_at (st @ ext) a = cell_at st a"
  by (simp add: cell_at_def nth_append)

lemma cell_at_here: "cell_at (st @ c # ext) (length st) = Some c"
  by (simp add: cell_at_def)

lemma cell_at_beyond: "cell_at (st @ ext) (length st + i) = cell_at ext i"
  by (simp add: cell_at_def nth_append)

lemma ext_reads:
  assumes "in_store st v"
  shows "ref_get (st @ ext) v k = ref_get st v k"
    and "array_items (st @ ext) v = array_items st v"
    and "ref_spread (st @ ext) v = ref_spread st v"
  using assms by (cases v; simp add: cell_at_append)+


lemma closed_cell:
  "closed_store st \<Longrightarrow> cell_at st a = Some c \<Longrightarrow> list_all (in_store st) (cell_vals c)"
  by (auto simp: closed_store_def cell_at_def list_all_length split: if_splits)

lemma closed_get:
  assumes "closed_store st" and "ref_get st v k = Inr w"
  shows "in_store st w"
proof (cases v)
  case (Ref a)
  show ?thesis
  proof (cases "cell_at st a")
    case None
    then show ?thesis using assms(2) Ref by auto
  next
    case (Some c)
    note vals = closed_cell [OF assms(1) Some]
    show ?thesis
    proof (cases c)
      case (ObjCell kvs)
      show ?thesis
      proof (cases "map_of kvs k")
        case None
        then show ?thesis using assms(2) Ref Some ObjCell by auto
      next
        case (Some w')
        then have "w' \<in> snd ` set kvs" by (metis map_of_SomeD snd_conv image_eqI)
        then have "in_store st w'" using vals ObjCell by (auto simp: list_all_iff)
        then show ?thesis using assms(2) Ref \<open>cell_at st a = Some c\<close> ObjCell Some by simp
      qed
    next
      case (ArrCell xs)
      then show ?thesis using assms(2) Ref Some by (auto split: if_splits)
    qed
  qed
qed (use assms(2) in \<open>auto split: if_splits\<close>)

lemma closed_items:
  assumes "closed_store st" and "array_items st v = Some xs"
  shows "list_all (in_store st) xs"
proof (cases v)
  case (Ref a)
  then obtain c where c: "cell_at st a = Some c" "c = ArrCell xs"
    using assms(2) by (auto split: option.splits cell.splits)
  from closed_cell [OF assms(1) c(1)] c(2) show ?thesis by simp
qed (use assms(2) in simp_all)

lemma array_items_truthy: "array_items st v = Some xs \<Longrightarrow> ref_truthy v"
  by (cases v) simp_all

lemma truthy_get: "ref_truthy v \<Longrightarrow> \<exists>w. ref_get st v k = Inr w"
  by (cases v) (auto split: option.splits cell.splits)

lemma upt_add_Suc: "[n ..< n + Suc k] = n # [Suc n ..< Suc n + k]"
  using upt_conv_Cons [of n "n + Suc k"] by simp

lemma copy_points_closed:
  "list_all (in_store st0) ps \<Longrightarrow>
   copy_points_st (st0 @ e0) ps =
     ((st0 @ e0) @ map (\<lambda>p. ObjCell (ref_spread st0 p)) ps,
      map Ref [length (st0 @ e0) ..< length (st0 @ e0) + length ps])"
proof (induction ps arbitrary: e0)
  case Nil
  show ?case by simp
next
  case (Cons p ps)
  then have p: "in_store st0 p" and ps: "list_all (in_store st0) ps" by simp_all
  have sp: "ref_spread (st0 @ e0) p = ref_spread st0 p"
    by (rule ext_reads(3) [OF p])
  have ih: "copy_points_st (st0 @ (e0 @ [ObjCell (ref_spread st0 p)])) ps =
     ((st0 @ (e0 @ [ObjCell (ref_spread st0 p)])) @ map (\<lambda>p. ObjCell (ref_spread st0 p)) ps,
      map Ref [length (st0 @ (e0 @ [ObjCell (ref_spread st0 p)])) ..<
               length (st0 @ (e0 @ [ObjCell (ref_spread st0 p)])) + length ps])"
    by (rule Cons.IH [OF ps])
  have upt: "[length (st0 @ e0) ..< length (st0 @ e0) + length (p # ps)] =
      length (st0 @ e0) # [length (st0 @ (e0 @ [ObjCell (ref_spread st0 p)])) ..<
         length (st0 @ (e0 @ [ObjCell (ref_spread st0 p)])) + length ps]"
    using upt_add_Suc [of "length (st0 @ e0)" "length ps"] by simp
  have "copy_points_st (st0 @ e0) (p # ps) =
      ((st0 @ (e0 @ [ObjCell (ref_spread st0 p)])) @ map (\<lambda>p. ObjCell (ref_spread st0 p)) ps,
       Ref (length (st0 @ e0)) #
         map Ref [length (st0 @ (e0 @ [ObjCell (ref_spread st0 p)])) ..<
                  length (st0 @ (e0 @ [ObjCell (ref_spread st0 p)])) + length ps])"
    using ih by (simp add: alloc_def sp)
  then show ?case
    unfolding upt by simp
qed

lemma copy_element_closed:
  assumes cl: "closed_store st0" and el: "in_store st0 el" and tr: "ref_truthy el"
  shows "copy_element_st (st0 @ e0) el =
     Inr ((st0 @ e0) @ copy_cells st0 (length (st0 @ e0)) el, Ref (length (st0 @ e0)))"
proof -
  let ?n = "length (st0 @ e0)"
  let ?kvs = "ref_spread st0 el"
  let ?st1 = "st0 @ (e0 @ [ObjCell ?kvs])"
  from truthy_get [OF tr] obtain pts where pts: "ref_get st0 el ''points'' = Inr pts" by blast
  have pin: "in_store st0 pts" by (rule closed_get [OF cl pts])
  have a: "alloc (ObjCell (ref_spread (st0 @ e0) el)) (st0 @ e0) = (?n, ?st1)"
    by (simp add: alloc_def ext_reads(3) [OF el])
  have g: "ref_get ?st1 el ''points'' = Inr pts"
    by (simp only: ext_reads(1) [OF el] pts)
  have ai: "array_items ?st1 pts = array_items st0 pts"
    by (rule ext_reads(2) [OF pin])
  show ?thesis
  proof (cases "array_items st0 pts")
    case None
    then have "points_of st0 el = None" by (simp add: points_of_def pts)
    then show ?thesis
      unfolding copy_element_st_def a by (simp add: g ai None and_then_def copy_cells_def)
  next
    case (Some ps)
    have po: "points_of st0 el = Some ps" by (simp add: points_of_def pts Some)
    have psin: "list_all (in_store st0) ps" by (rule closed_items [OF cl Some])
    have tp: "ref_truthy pts" by (rule array_items_truthy [OF Some])
    let ?pc = "map (\<lambda>p. ObjCell (ref_spread st0 p)) ps"
    let ?rs = "map Ref [length ?st1 ..< length ?st1 + length ps]"
    have cp: "copy_points_st ?st1 ps = (?st1 @ ?pc, ?rs)"
      by (rule copy_points_closed [OF psin])
    have al: "alloc (ArrCell ?rs) (?st1 @ ?pc) = (length ?st1 + length ps, (?st1 @ ?pc) @ [ArrCell ?rs])"
      by (simp add: alloc_def)
    have cellc: "cell_at ((?st1 @ ?pc) @ [ArrCell ?rs]) ?n = Some (ObjCell ?kvs)"
      using cell_at_here [of "st0 @ e0" "ObjCell ?kvs" "?pc @ [ArrCell ?rs]"] by simp
    have upd: "((?st1 @ ?pc) @ [ArrCell ?rs])[?n := c'] = (st0 @ e0) @ c' # ?pc @ [ArrCell ?rs]" for c'
      using list_update_length [of "st0 @ e0" "ObjCell ?kvs" "?pc @ [ArrCell ?rs]" c'] by simp
    have asg: "assign_prop ((?st1 @ ?pc) @ [ArrCell ?rs]) ?n ''points'' (Ref (length ?st1 + length ps))
        = (st0 @ e0) @ ObjCell (set_prop ''points'' (Ref (length ?st1 + length ps)) ?kvs)
            # ?pc @ [ArrCell ?rs]"
      unfolding assign_prop_def cellc by (simp only: option.case cell.case upd)
    have "copy_element_st (st0 @ e0) el =
        Inr (assign_prop ((?st1 @ ?pc) @ [ArrCell ?rs]) ?n ''points'' (Ref (length ?st1 + length ps)),
             Ref ?n)"
      unfolding copy_element_st_def a
      by (simp only: prod.case g and_then_def sum.case ai Some tp option.sel cp al) simp
    then show ?thesis
      unfolding asg by (simp add: copy_cells_def po)
  qed
qed

lemma map_copy_closed:
  assumes cl: "closed_store st0"
  shows "list_all (in_store st0) els \<Longrightarrow> list_all ref_truthy els \<Longrightarrow>
     map_copy_st (st0 @ e0) els =
       Inr ((st0 @ e0) @ fst (snapshot_cells st0 (length (st0 @ e0)) els),
            snd (snapshot_cells st0 (length (st0 @ e0)) els))"
proof (induction els arbitrary: e0)
  case Nil
  show ?case by simp
next
  case (Cons el els)
  then have el: "in_store st0 el" "ref_truthy el"
    and els: "list_all (in_store st0) els" "list_all ref_truthy els" by simp_all
  let ?cs = "copy_cells st0 (length (st0 @ e0)) el"
  have c1: "copy_element_st (st0 @ e0) el = Inr (st0 @ (e0 @ ?cs), Ref (length (st0 @ e0)))"
    using copy_element_closed [OF cl el, of e0] by simp
  have ih: "map_copy_st (st0 @ (e0 @ ?cs)) els =
       Inr ((st0 @ (e0 @ ?cs)) @ fst (snapshot_cells st0 (length (st0 @ (e0 @ ?cs))) els),
            snd (snapshot_cells st0 (length (st0 @ (e0 @ ?cs))) els))"
    by (rule Cons.IH [OF els])
  have len: "length (st0 @ (e0 @ ?cs)) = length (st0 @ e0) + length ?cs" by simp
  show ?case
    unfolding map_copy_st.simps c1 and_then_def
    by (simp only: sum.case fst_conv snd_conv ih len snapshot_cells.simps)
       (simp split: prod.splits)
qed


lemma array_items_in_store: "array_items st v = Some xs \<Longrightarrow> in_store st v"
  by (cases v) (auto simp: cell_at_def split: if_splits)

lemma el_and_type_st_total:
  "\<exists>r. el_and_type_st st el = Inr r \<and> ref_truthy r = valid_st st el"
  by (cases el) (auto simp: el_and_type_st_def valid_st_def split: option.splits cell.splits)

lemma filter_ref_valid: "filter_ref (el_and_type_st st) els = Inr (filter (valid_st st) els)"
proof (induction els)
  case Nil
  show ?case by simp
next
  case (Cons el els)
  obtain r where "el_and_type_st st el = Inr r" "ref_truthy r = valid_st st el"
    using el_and_type_st_total by blast
  then show ?case by (simp add: Cons.IH)
qed

lemma push_closed:
  "push (st @ [ArrCell xs]) (length st) v = st @ [ArrCell (xs @ [v])]"
  by (simp add: push_def cell_at_def)

lemma push_history_closed:
  assumes "history_items st (history_ref s) = Some h"
  shows "\<exists>hc nh. push_history (st @ ext) s snap = Inr ((st @ ext) @ hc, nh) \<and>
           length (st @ ext) \<le> nh \<and>
           array_items ((st @ ext) @ hc) (Ref nh) = Some (slice0 h (index_of s + 1) @ [snap])"
proof (cases "ref_truthy (history_ref s)")
  case True
  then have h: "array_items st (history_ref s) = Some h"
    using assms by (simp add: history_items_def)
  have h': "array_items (st @ ext) (history_ref s) = Some h"
    using ext_reads(2) [OF array_items_in_store [OF h]] h by simp
  let ?sl = "slice0 h (index_of s + 1)"
  have "push_history (st @ ext) s snap = Inr ((st @ ext) @ [ArrCell (?sl @ [snap])], length (st @ ext))"
    unfolding push_history_def using True
    by (simp only: if_True prod.case h' option.case alloc_def push_closed)
  moreover have "array_items ((st @ ext) @ [ArrCell (?sl @ [snap])]) (Ref (length (st @ ext)))
      = Some (?sl @ [snap])"
    using cell_at_here [of "st @ ext" "ArrCell (?sl @ [snap])" "[]"] by simp
  ultimately show ?thesis by blast
next
  case False
  then have h: "h = []" using assms by (simp add: history_items_def)
  let ?st1 = "(st @ ext) @ [ArrCell []]"
  have a1: "array_items ?st1 (Ref (length (st @ ext))) = Some []"
    using cell_at_here [of "st @ ext" "ArrCell []" "[]"] by simp
  have "push_history (st @ ext) s snap = Inr (?st1 @ [ArrCell ([] @ [snap])], length ?st1)"
    unfolding push_history_def using False
    by (simp only: if_False prod.case alloc_def a1 option.case push_closed slice0_def take.simps if_cancel)
  moreover have "array_items (?st1 @ [ArrCell ([] @ [snap])]) (Ref (length ?st1)) = Some ([] @ [snap])"
    using cell_at_here [of ?st1 "ArrCell ([] @ [snap])" "[]"] by simp
  ultimately have "push_history (st @ ext) s snap
        = Inr ((st @ ext) @ [ArrCell [], ArrCell ([] @ [snap])], length ?st1) \<and>
      length (st @ ext) \<le> length ?st1 \<and>
      array_items ((st @ ext) @ [ArrCell [], ArrCell ([] @ [snap])]) (Ref (length ?st1))
        = Some (slice0 h (index_of s + 1) @ [snap])"
    by (simp add: h slice0_def)
  then show ?thesis by blast
qed

lemma map_of_set_prop: "map_of (set_prop k v kvs) k = Some v"
  by (induction kvs) auto

lemma copy_cells_copied:
  assumes "length st0 \<le> length pre"
  shows "element_copied st0 (pre @ copy_cells st0 (length pre) el @ post) el (Ref (length pre))"
proof (cases "points_of st0 el")
  case None
  then show ?thesis
    using assms cell_at_here [of pre "ObjCell (ref_spread st0 el)" post]
    by (simp add: element_copied_def copy_cells_def)
next
  case (Some ps)
  let ?n = "length pre"
  let ?pa = "?n + 1 + length ps"
  let ?kvs = "set_prop ''points'' (Ref ?pa) (ref_spread st0 el)"
  let ?pc = "map (\<lambda>p. ObjCell (ref_spread st0 p)) ps"
  let ?rs = "map Ref [?n + 1 ..< ?n + 1 + length ps]"
  let ?final = "pre @ (ObjCell ?kvs # ?pc @ [ArrCell ?rs]) @ post"
  have c0: "cell_at ?final ?n = Some (ObjCell ?kvs)"
    using cell_at_here [of pre "ObjCell ?kvs" "?pc @ [ArrCell ?rs] @ post"] by simp
  have c1: "cell_at ?final ?pa = Some (ArrCell ?rs)"
    using cell_at_here [of "pre @ ObjCell ?kvs # ?pc" "ArrCell ?rs" post] by simp
  have pt: "point_copied st0 ?final (ps ! i) (?rs ! i)" if i: "i < length ps" for i
  proof -
    have "cell_at ?final (length (pre @ [ObjCell ?kvs]) + i) = cell_at (?pc @ [ArrCell ?rs] @ post) i"
      using cell_at_beyond [of "pre @ [ObjCell ?kvs]" "?pc @ [ArrCell ?rs] @ post" i] by simp
    also have "\<dots> = Some (ObjCell (ref_spread st0 (ps ! i)))"
      using i by (simp add: cell_at_def nth_append)
    finally have "cell_at ?final (?n + 1 + i) = Some (ObjCell (ref_spread st0 (ps ! i)))"
      by simp
    moreover have "?rs ! i = Ref (?n + 1 + i)" using i by (simp del: upt_Suc)
    ultimately show ?thesis using assms by (simp add: point_copied_def)
  qed
  have "list_all2 (point_copied st0 ?final) ps ?rs"
    using pt by (simp add: list_all2_conv_all_nth del: upt_Suc)
  then show ?thesis
    using assms c0 c1 Some
    by (simp add: element_copied_def copy_cells_def map_of_set_prop del: upt_Suc)
qed

lemma snapshot_cells_copied:
  "length st0 \<le> length pre \<Longrightarrow>
   list_all2 (element_copied st0 (pre @ fst (snapshot_cells st0 (length pre) els) @ post))
     els (snd (snapshot_cells st0 (length pre) els))"
proof (induction els arbitrary: pre post)
  case Nil
  show ?case by simp
next
  case (Cons el els)
  let ?cs = "copy_cells st0 (length pre) el"
  obtain cells refs where sc: "snapshot_cells st0 (length pre + length ?cs) els = (cells, refs)"
    by (cases "snapshot_cells st0 (length pre + length ?cs) els") auto
  have hd: "element_copied st0 (pre @ ?cs @ (cells @ post)) el (Ref (length pre))"
    by (rule copy_cells_copied [OF Cons.prems])
  have "length st0 \<le> length (pre @ ?cs)" using Cons.prems by simp
  from Cons.IH [OF this, of post]
  have tl: "list_all2 (element_copied st0 ((pre @ ?cs) @ cells @ post)) els refs"
    using sc by simp
  show ?case using hd tl by (simp add: sc)
qed

lemma snapshot_refs_fresh:
  "r \<in> set (snd (snapshot_cells st0 n els)) \<Longrightarrow> \<exists>m\<ge>n. r = Ref m"
proof (induction els arbitrary: n)
  case Nil
  then show ?case by simp
next
  case (Cons el els)
  let ?k = "n + length (copy_cells st0 n el)"
  obtain cells refs where sc: "snapshot_cells st0 ?k els = (cells, refs)"
    by (cases "snapshot_cells st0 ?k els") auto
  from Cons.prems sc have "r = Ref n \<or> r \<in> set refs" by simp
  then show ?case
  proof
    assume "r = Ref n"
    then show ?thesis by blast
  next
    assume "r \<in> set refs"
    then have "r \<in> set (snd (snapshot_cells st0 ?k els))" using sc by simp
    from Cons.IH [OF this] obtain m where "m \<ge> ?k" "r = Ref m" by blast
    then have "m \<ge> n" "r = Ref m" by simp_all
    then show ?thesis by blast
  qed
qed


lemma example_draw_up:
  "draw_up_st example_store example_refs =
     Inr (example_store @
          [ArrCell [Ref 2],
           ObjCell [(''type'', RStr BRUSH), (''points'', Ref 10)],
           ObjCell [(''x'', RNum 1), (''y'', RNum 2)],
           ArrCell [Ref 9],
           ArrCell [Ref 8],
           ArrCell [Ref 5, Ref 11]],
          \<lparr>elements_ref = Ref 4, history_ref = Ref 12, index_of = 1\<rparr>)"
  by code_simp

lemma example_erase:
  "erase_st never_near example_store example_refs (RNum 500) (RNum 500) =
     Inr (example_store @ [ArrCell [Ref 2], ArrCell [Ref 5, Ref 7]],
          \<lparr>elements_ref = Ref 7, history_ref = Ref 8, index_of = 1\<rparr>)"
  by code_simp

text \<open>
  On the example the two models agree: the reducer on trees, given the trees that the
  store holds, returns the trees that the store holds after the reducer on the store.
\<close>

lemma example_models_agree_draw_up:
  "draw_up \<lparr>activeToolItem = BRUSH, toolActionType = DRAWING,
            elements = items (reify 4 example_store (Ref 4)),
            history = Some (items (reify 4 example_store (Ref 6))), index = 0,
            canvasId = [], isUserLoggedIn = True\<rparr>
   = Inr \<lparr>activeToolItem = BRUSH, toolActionType = DRAWING,
          elements = items (reify 4 after_draw_up (Ref 4)),
          history = Some (items (reify 5 after_draw_up (Ref 12))), index = 1,
          canvasId = [], isUserLoggedIn = True\<rparr>"
  by code_simp

lemma example_models_agree_erase:
  "erase (\<lambda>el x y. False)
      \<lparr>activeToolItem = ERASER, toolActionType = ERASING,
       elements = items (reify 4 example_store (Ref 4)),
       history = Some (items (reify 4 example_store (Ref 6))), index = 0,
       canvasId = [], isUserLoggedIn = True\<rparr> (Num 500) (Num 500)
   = Inr \<lparr>activeToolItem = ERASER, toolActionType = ERASING,
          elements = items (reify 4 after_erase (Ref 7)),
          history = Some (items (reify 5 after_erase (Ref 8))), index = 1,
          canvasId = [], isUserLoggedIn = True\<rparr>"
  by code_simp


text \<open>
  Claim C10: \<^verbatim>\<open>DRAW_UP\<close> leaves the live collection itself unchanged. The state keeps
  the same reference to the elements array; no cell that existed before is changed (so
  the array holds the same entries, with or without a type, and each element object is
  as it was); the only change is the history: a new array of the entries \<open>0 .. index\<close> and
  a new snapshot array, whose entries are deep copies, in cells that did not exist
  before, of exactly the entries that have a type. No entry of the live array is an
  entry of the snapshot; an entry without a type has no copy there either.
\<close>

theorem draw_up_st_frame:
  assumes cl: "closed_store st"
    and els: "array_items st (elements_ref s) = Some els"
    and h: "history_items st (history_ref s) = Some h"
  shows "\<exists>st' s' nh ec copies.
      draw_up_st st s = Inr (st', s') \<and>
      elements_ref s' = elements_ref s \<and>
      take (length st) st' = st \<and>
      array_items st' (elements_ref s') = Some els \<and>
      history_ref s' = Ref nh \<and> index_of s' = index_of s + 1 \<and>
      array_items st' (Ref nh) = Some (slice0 h (index_of s + 1) @ [Ref ec]) \<and>
      length st \<le> nh \<and> length st \<le> ec \<and>
      array_items st' (Ref ec) = Some copies \<and>
      list_all2 (element_copied st st') (filter (valid_st st) els) copies \<and>
      (\<forall>el\<in>set els. el \<notin> set copies)"
proof -
  let ?valid = "filter (valid_st st) els"
  let ?e0 = "[ArrCell ?valid]"
  let ?cells = "fst (snapshot_cells st (length (st @ ?e0)) ?valid)"
  let ?copies = "snd (snapshot_cells st (length (st @ ?e0)) ?valid)"
  let ?ec = "length ((st @ ?e0) @ ?cells)"
  let ?ext = "?e0 @ ?cells @ [ArrCell ?copies]"
  have elin: "list_all (in_store st) els" by (rule closed_items [OF cl els])
  then have vin: "list_all (in_store st) ?valid" by (simp add: list_all_iff)
  have vtr: "list_all ref_truthy ?valid" by (simp add: list_all_iff valid_st_def)
  have mc: "map_copy_st (st @ ?e0) ?valid = Inr ((st @ ?e0) @ ?cells, ?copies)"
    by (rule map_copy_closed [OF cl vin vtr])
  from push_history_closed [OF h, of ?ext "Ref ?ec"] obtain hc nh
    where ph: "push_history (st @ ?ext) s (Ref ?ec) = Inr ((st @ ?ext) @ hc, nh)"
      and nh: "length (st @ ?ext) \<le> nh"
      and hist: "array_items ((st @ ?ext) @ hc) (Ref nh) = Some (slice0 h (index_of s + 1) @ [Ref ?ec])"
    by blast
  let ?st' = "(st @ ?ext) @ hc"
  let ?s' = "s\<lparr>history_ref := Ref nh, index_of := index_of s + 1\<rparr>"
  have a2: "((st @ ?e0) @ ?cells) @ [ArrCell ?copies] = st @ ?ext"
    by simp
  have run: "draw_up_st st s = Inr (?st', ?s')"
    unfolding draw_up_st_def
    by (simp only: els option.case filter_ref_valid and_then_def sum.case alloc_def prod.case
        mc fst_conv snd_conv a2 ph)
  have frame: "take (length st) ?st' = st" by simp
  have live: "array_items ?st' (elements_ref s) = Some els"
    using ext_reads(2) [OF array_items_in_store [OF els], of "?ext @ hc"] els by simp
  have snap: "array_items ?st' (Ref ?ec) = Some ?copies"
    using cell_at_here [of "(st @ ?e0) @ ?cells" "ArrCell ?copies" hc] by simp
  have copied: "list_all2 (element_copied st ?st') ?valid ?copies"
    using snapshot_cells_copied [of st "st @ ?e0" ?valid "[ArrCell ?copies] @ hc"] by simp
  have fresh: "el \<notin> set ?copies" if "el \<in> set els" for el
  proof
    assume "el \<in> set ?copies"
    from snapshot_refs_fresh [OF this] obtain m where m: "m \<ge> length (st @ ?e0)" "el = Ref m"
      by blast
    have "in_store st el" using elin that by (simp add: list_all_iff)
    then show False using m by simp
  qed
  have "draw_up_st st s = Inr (?st', ?s') \<and>
      elements_ref ?s' = elements_ref s \<and>
      take (length st) ?st' = st \<and>
      array_items ?st' (elements_ref ?s') = Some els \<and>
      history_ref ?s' = Ref nh \<and> index_of ?s' = index_of s + 1 \<and>
      array_items ?st' (Ref nh) = Some (slice0 h (index_of s + 1) @ [Ref ?ec]) \<and>
      length st \<le> nh \<and> length st \<le> ?ec \<and>
      array_items ?st' (Ref ?ec) = Some ?copies \<and>
      list_all2 (element_copied st ?st') ?valid ?copies \<and>
      (\<forall>el\<in>set els. el \<notin> set ?copies)"
    using run frame live hist nh snap copied fresh by simp
  then show ?thesis by blast
qed

text \<open>The theorem at the example store: the stroke is copied into the cells 8 to 10, the
  object without a type and \<^verbatim>\<open>null\<close> are not.\<close>

theorem draw_up_st_frame_witness:
  "closed_store example_store
   \<and> array_items example_store (elements_ref example_refs) = Some [Ref 2, Ref 3, RNull]
   \<and> history_items example_store (history_ref example_refs) = Some [Ref 5]
   \<and> (\<exists>st' s' nh ec copies.
      draw_up_st example_store example_refs = Inr (st', s') \<and>
      elements_ref s' = elements_ref example_refs \<and>
      take (length example_store) st' = example_store \<and>
      array_items st' (elements_ref s') = Some [Ref 2, Ref 3, RNull] \<and>
      history_ref s' = Ref nh \<and> index_of s' = index_of example_refs + 1 \<and>
      array_items st' (Ref nh) = Some (slice0 [Ref 5] (index_of example_refs + 1) @ [Ref ec]) \<and>
      length example_store \<le> nh \<and> length example_store \<le> ec \<and>
      array_items st' (Ref ec) = Some copies \<and>
      list_all2 (element_copied example_store st')
        (filter (valid_st example_store) [Ref 2, Ref 3, RNull]) copies \<and>
      (\<forall>el\<in>set [Ref 2, Ref 3, RNull]. el \<notin> set copies))
   \<and> draw_up_st example_store example_refs =
       Inr (example_store @
            [ArrCell [Ref 2],
             ObjCell [(''type'', RStr BRUSH), (''points'', Ref 10)],
             ObjCell [(''x'', RNum 1), (''y'', RNum 2)],
             ArrCell [Ref 9],
             ArrCell [Ref 8],
             ArrCell [Ref 5, Ref 11]],
            \<lparr>elements_ref = Ref 4, history_ref = Ref 12, index_of = 1\<rparr>)"
proof -
  have c: "closed_store example_store"
    by (simp add: closed_store_def example_store_def)
  have e: "array_items example_store (elements_ref example_refs) = Some [Ref 2, Ref 3, RNull]"
    by (simp add: example_store_def example_refs_def cell_at_def)
  have h: "history_items example_store (history_ref example_refs) = Some [Ref 5]"
    by (simp add: history_items_def example_store_def example_refs_def cell_at_def)
  show ?thesis
    using c e h draw_up_st_frame [OF c e h] example_draw_up by blast
qed

text \<open>
  Claim C8 at a failing input: an erase pass (far from the one stroke) pushes the array
  it installs as the live collection, array number 7, as snapshot \<open>history[1]\<close>; writing
  the \<^verbatim>\<open>x\<close> of the stroke's point through the live collection changes what that snapshot
  holds. After \<^verbatim>\<open>DRAW_UP\<close> on the same store the same write leaves the pushed snapshot,
  array number 11, as it was.
\<close>

theorem erase_snapshot_is_live_array:
  "erase_st never_near example_store example_refs (RNum 500) (RNum 500) =
     Inr (after_erase, \<lparr>elements_ref = Ref 7, history_ref = Ref 8, index_of = 1\<rparr>)
   \<and> array_items after_erase (Ref 8) = Some [Ref 5, Ref 7]
   \<and> reify 4 after_erase (Ref 7) =
       Arr [Obj [(''type'', Str BRUSH),
                 (''points'', Arr [Obj [(''x'', Num 1), (''y'', Num 2)]])]]
   \<and> reify 4 (assign_prop after_erase 0 ''x'' (RNum 99)) (Ref 7) =
       Arr [Obj [(''type'', Str BRUSH),
                 (''points'', Arr [Obj [(''x'', Num 99), (''y'', Num 2)]])]]
   \<and> draw_up_st example_store example_refs =
       Inr (after_draw_up, \<lparr>elements_ref = Ref 4, history_ref = Ref 12, index_of = 1\<rparr>)
   \<and> array_items after_draw_up (Ref 12) = Some [Ref 5, Ref 11]
   \<and> reify 4 (assign_prop after_draw_up 0 ''x'' (RNum 99)) (Ref 11) =
       Arr [Obj [(''type'', Str BRUSH),
                 (''points'', Arr [Obj [(''x'', Num 1), (''y'', Num 2)]])]]"
proof (intro conjI)
  show "draw_up_st example_store example_refs =
       Inr (after_draw_up, \<lparr>elements_ref = Ref 4, history_ref = Ref 12, index_of = 1\<rparr>)"
    unfolding after_draw_up_def by (rule example_draw_up)
  show "array_items after_draw_up (Ref 12) = Some [Ref 5, Ref 11]"
    by code_simp
  show "reify 4 (assign_prop after_draw_up 0 ''x'' (RNum 99)) (Ref 11) =
       Arr [Obj [(''type'', Str BRUSH),
                 (''points'', Arr [Obj [(''x'', Num 1), (''y'', Num 2)]])]]"
    by code_simp
  show "erase_st never_near example_store example_refs (RNum 500) (RNum 500) =
     Inr (after_erase, \<lparr>elements_ref = Ref 7, history_ref = Ref 8, index_of = 1\<rparr>)"
    unfolding after_erase_def by (rule example_erase)
  show "array_items after_erase (Ref 8) = Some [Ref 5, Ref 7]"
    by code_simp
  show "reify 4 after_erase (Ref 7) =
       Arr [Obj [(''type'', Str BRUSH),
                 (''points'', Arr [Obj [(''x'', Num 1), (''y'', Num 2)]])]]"
    by code_simp
  show "reify 4 (assign_prop after_erase 0 ''x'' (RNum 99)) (Ref 7) =
       Arr [Obj [(''type'', Str BRUSH),
                 (''points'', Arr [Obj [(''x'', Num 99), (''y'', Num 2)]])]]"
    by code_simp
qed

subsection \<open>Pointer moves on the store\<close>

text \<open>
  A pointer move whose last element is a brush stroke with an array of points appends
  three cells (the new elements array, the new point, the new point sequence) and
  overwrites the cell of the stroke: its \<^verbatim>\<open>points\<close> now refers to the new sequence.
\<close>

lemma draw_move_st_brush:
  assumes els: "array_items st (elements_ref s) = Some els" and ne: "els \<noteq> []"
    and el: "last els = Ref a" and c: "cell_at st a = Some (ObjCell kvs)"
    and ty: "map_of kvs ''type'' = Some (RStr BRUSH)"
    and pts: "map_of kvs ''points'' = Some pts" and ps: "array_items st pts = Some ps"
  shows "draw_move_st ce tool st s x y =
     Inr ((st @ [ArrCell els, ObjCell [(''x'', x), (''y'', y)],
                 ArrCell (ps @ [Ref (length st + 1)])])
            [a := ObjCell (set_prop ''points'' (Ref (length st + 2)) kvs)],
          s\<lparr>elements_ref := Ref (length st)\<rparr>)"
proof -
  let ?st1 = "st @ [ArrCell els]"
  have a: "a < length st" and sa: "st ! a = ObjCell kvs"
    using c by (auto simp: cell_at_def split: if_splits)
  have it: "iterate_st st (elements_ref s) = Some els"
    using els by (cases "elements_ref s") simp_all
  have idx: "0 \<le> int (length els) - 1" "els ! nat (int (length els) - 1) = Ref a"
    using ne el by (simp_all add: last_conv_nth nat_diff_distrib')
  have c1: "cell_at ?st1 a = Some (ObjCell kvs)"
    using a sa by (simp add: cell_at_def nth_append)
  have g: "ref_get ?st1 (Ref a) ''type'' = Inr (RStr BRUSH)"
    "ref_get ?st1 (Ref a) ''points'' = Inr pts"
    using c1 ty pts by simp_all
  have "array_items ?st1 pts = Some ps"
    using ps by (cases pts) (auto simp: cell_at_def nth_append split: if_splits)
  then have ip: "iterate_st ?st1 pts = Some ps"
    by (cases pts) simp_all
  have b: "RStr BRUSH \<noteq> RStr LINE" "RStr BRUSH \<noteq> RStr RECTANGLE" "RStr BRUSH \<noteq> RStr CIRCLE"
    "RStr BRUSH \<noteq> RStr ARROW"
    by (simp_all add: BRUSH_def LINE_def RECTANGLE_def CIRCLE_def ARROW_def)
  have as: "assign_prop (st @ [ArrCell els, ObjCell [(''x'', x), (''y'', y)],
                 ArrCell (ps @ [Ref (length st + 1)])]) a ''points'' (Ref (length st + 2))
      = (st @ [ArrCell els, ObjCell [(''x'', x), (''y'', y)],
                 ArrCell (ps @ [Ref (length st + 1)])])
            [a := ObjCell (set_prop ''points'' (Ref (length st + 2)) kvs)]"
    using a sa by (simp add: assign_prop_def cell_at_def nth_append)
  show ?thesis
    unfolding draw_move_st_def it
    using idx g ip b as by (simp add: alloc_def and_then_def Let_def)
qed

text \<open>
  After the erase pass of the example, whose snapshot is the live array, the move
  shows in that snapshot: the stroke of \<open>history[1]\<close> has the new point. The reducer on
  trees returns the same live collection and leaves the history as it was before the
  move.
\<close>

lemma example_draw_move:
  "draw_move_st ce BRUSH after_erase
     \<lparr>elements_ref = Ref 7, history_ref = Ref 8, index_of = 1\<rparr> (RNum 5) (RNum 6)
   = Inr (after_move, \<lparr>elements_ref = Ref 9, history_ref = Ref 8, index_of = 1\<rparr>)"
proof -
  let ?s = "\<lparr>elements_ref = Ref 7, history_ref = Ref 8, index_of = 1\<rparr>"
  have 1: "array_items after_erase (elements_ref ?s) = Some [Ref 2]" by code_simp
  have 2: "[Ref 2] \<noteq> []" "last [Ref 2] = Ref 2" by simp_all
  have 3: "cell_at after_erase 2 = Some (ObjCell [(''type'', RStr BRUSH), (''points'', Ref 1)])"
    by code_simp
  have 4: "map_of [(''type'', RStr BRUSH), (''points'', Ref 1)] ''type'' = Some (RStr BRUSH)"
    "map_of [(''type'', RStr BRUSH), (''points'', Ref 1)] ''points'' = Some (Ref 1)"
    by simp_all
  have 5: "array_items after_erase (Ref 1) = Some [Ref 0]" by code_simp
  have 6: "length after_erase = 9" by code_simp
  show ?thesis
    unfolding draw_move_st_brush [OF 1 2 3 4 5, of ce BRUSH "RNum 5" "RNum 6"] 6
    by (simp add: after_move_def)
qed

lemma draw_move_reaches_erase_snapshot:
  "array_items after_erase (Ref 8) = Some [Ref 5, Ref 7]
   \<and> array_items after_move (Ref 8) = Some [Ref 5, Ref 7]
   \<and> reify 4 after_erase (Ref 7) =
       Arr [Obj [(''type'', Str BRUSH),
                 (''points'', Arr [Obj [(''x'', Num 1), (''y'', Num 2)]])]]
   \<and> reify 4 after_move (Ref 7) =
       Arr [Obj [(''type'', Str BRUSH),
                 (''points'', Arr [Obj [(''x'', Num 1), (''y'', Num 2)],
                                   Obj [(''x'', Num 5), (''y'', Num 6)]])]]
   \<and> reify 4 after_move (Ref 9) = reify 4 after_move (Ref 7)"
  by code_simp

lemma example_models_agree_draw_move:
  "draw_move ce
      \<lparr>activeToolItem = BRUSH, toolActionType = DRAWING,
       elements = items (reify 4 after_erase (Ref 7)),
       history = Some (items (reify 5 after_erase (Ref 8))), index = 1,
       canvasId = [], isUserLoggedIn = True\<rparr> (Num 5) (Num 6)
   = Inr \<lparr>activeToolItem = BRUSH, toolActionType = DRAWING,
          elements = items (reify 4 after_move (Ref 9)),
          history = Some (items (reify 5 after_erase (Ref 8))), index = 1,
          canvasId = [], isUserLoggedIn = True\<rparr>"
  by code_simp

section \<open>Authorization failures and the change of canvas\<close>

lemma dispatch_fields [simp]:
  "isAuthorized (dispatchBoardAction ce near a v) = isAuthorized v"
  "listening (dispatchBoardAction ce near a v) = listening v"
  "unauthorizedRetryCount (dispatchBoardAction ce near a v) = unauthorizedRetryCount v"
  "connect_listener (dispatchBoardAction ce near a v) = connect_listener v"
  "socketInstance (dispatchBoardAction ce near a v) = socketInstance v"
  "sockets_made (dispatchBoardAction ce near a v) = sockets_made v"
  "connected (dispatchBoardAction ce near a v) = connected v"
  "timers (dispatchBoardAction ce near a v) = timers v"
  "route (dispatchBoardAction ce near a v) = route v"
  "mounted (dispatchBoardAction ce near a v) = mounted v"
  "currentCanvasRef (dispatchBoardAction ce near a v) = currentCanvasRef v"
  by (simp_all add: dispatchBoardAction_def split: sum.splits)

lemma dispatch_trace [simp]:
  "filter is_alert (trace (dispatchBoardAction ce near a v)) = filter is_alert (trace v)"
  "filter is_broadcast (trace (dispatchBoardAction ce near a v)) = filter is_broadcast (trace v)"
  "filter is_retry (trace (dispatchBoardAction ce near a v)) = filter is_retry (trace v)"
  by (simp_all add: dispatchBoardAction_def split: sum.splits)

lemma getSocket_fields [simp]:
  "isAuthorized (getSocket v) = isAuthorized v"
  "listening (getSocket v) = listening v"
  "unauthorizedRetryCount (getSocket v) = unauthorizedRetryCount v"
  "connect_listener (getSocket v) = connect_listener v"
  "timers (getSocket v) = timers v"
  "trace (getSocket v) = trace v"
  "crashed (getSocket v) = crashed v"
  "board (getSocket v) = board v"
  "route (getSocket v) = route v"
  "mounted (getSocket v) = mounted v"
  "currentCanvasRef (getSocket v) = currentCanvasRef v"
  by (simp_all add: getSocket_def)

lemma rerender_fields [simp]:
  "isAuthorized (rerender v) = isAuthorized v"
  "listening (rerender v) = listening v"
  "socketInstance (rerender v) = socketInstance v"
  "unauthorizedRetryCount (rerender v) = unauthorizedRetryCount v"
  "timers (rerender v) = timers v"
  "trace (rerender v) = trace v"
  "crashed (rerender v) = crashed v"
  "board (rerender v) = board v"
  "route (rerender v) = route v"
  by (simp_all add: rerender_def ref_sync_effect_def split: option.splits)

lemma getSocket_connected [simp]:
  "connected (getSocket v) = (socketInstance v \<noteq> None \<and> connected v)"
  by (simp add: getSocket_def)

lemma listener_rerender [simp]: "listener (rerender v) = listener v"
  by (simp add: listener_def cong: option.case_cong)

lemma listener_updates [simp]:
  "listener (v\<lparr>unauthorizedRetryCount := n\<rparr>) = listener v"
  "listener (v\<lparr>timers := ts\<rparr>) = listener v"
  "listener (v\<lparr>trace := tr\<rparr>) = listener v"
  "listener (v\<lparr>isAuthorized := au\<rparr>) = listener v"
  by (simp_all add: listener_def cong: option.case_cong)

lemma handleUnauthorized_payload:
  assumes "data \<noteq> Undefined" and "data \<noteq> Null"
  shows "handleUnauthorized cid data v =
     (if unauthorizedRetryCount v = 0
       then Inr (v\<lparr>unauthorizedRetryCount := unauthorizedRetryCount v + 1,
                   timers := timers v @ [(500, cid)],
                   trace := trace v @ [SetTimeout 500 cid]\<rparr>)
       else Inr ((v\<lparr>trace := trace v
                          @ [Alert ''Access Denied: You cannot edit this canvas.'']\<rparr>)
                   \<lparr>isAuthorized := False\<rparr>))"
  using assms by (cases data) (simp_all add: handleUnauthorized_def and_then_def)

lemma handleUnauthorized_no_payload:
  "handleUnauthorized cid Undefined v = Inl TypeError"
  "handleUnauthorized cid Null v = Inl TypeError"
  by (simp_all add: handleUnauthorized_def and_then_def)

lemma on_unauthorized_cases:
  "on_unauthorized data v =
     (case listener v of
        None \<Rightarrow> v
      | Some cid \<Rightarrow>
          if data = Undefined \<or> data = Null then v
          else if unauthorizedRetryCount v = 0
          then v\<lparr>unauthorizedRetryCount := unauthorizedRetryCount v + 1,
                  timers := timers v @ [(500, cid)],
                  trace := trace v @ [SetTimeout 500 cid]\<rparr>
          else (v\<lparr>trace := trace v
                          @ [Alert ''Access Denied: You cannot edit this canvas.'']\<rparr>)
                   \<lparr>isAuthorized := False\<rparr>)"
  by (auto simp: on_unauthorized_def handleUnauthorized_payload handleUnauthorized_no_payload
      split: option.splits)


lemma step_crashed: "crashed v \<Longrightarrow> step ce near v ev = v"
  by (simp add: step_def)




lemma run_snoc: "run ce near v (evs @ [ev]) = step ce near (run ce near v evs) ev"
  by (simp add: run_def)







lemma no_payload_failure:
  assumes "d = Undefined \<or> d = Null"
  shows "step ce near v (Unauthorized d) = (if crashed v then v else rerender v)"
  using assms by (auto simp: step_def on_unauthorized_cases split: option.splits)









lemma set_elements_run:
  "\<not> crashed v \<Longrightarrow>
   setElements ce near es v =
     v\<lparr>board := (board v)\<lparr>elements := es\<rparr>,
       trace := trace v @ [Dispatched (SET_CANVAS_ELEMENTS es)]\<rparr>"
  by (simp add: setElements_def dispatchBoardAction_def)

lemma set_history_run:
  "\<not> crashed v \<Longrightarrow>
   setHistory ce near es v =
     v\<lparr>board := (board v)\<lparr>history := Some [Arr es], index := 0\<rparr>,
       trace := trace v @ [Dispatched (SET_HISTORY (Some es))]\<rparr>"
  by (simp add: setHistory_def dispatchBoardAction_def)

lemma step_in_sync:
  assumes "\<not> crashed (step ce near v ev)" and "route (step ce near v ev) = Some a"
  shows "currentCanvasRef (step ce near v ev) = (Str a, Arr (elements (board (step ce near v ev))))"
proof -
  have nc: "\<not> crashed v" using assms(1) step_crashed [of v ce near ev] by auto
  let ?w = "handle ce near ev v"
  have s: "step ce near v ev = rerender ?w" using nc by (simp add: step_def)
  have "\<not> crashed ?w" using assms(1) s by simp
  moreover have "route ?w = Some a" using assms(2) s by simp
  ultimately show ?thesis
    unfolding s by (simp add: rerender_def ref_sync_effect_def)
qed

lemma run_in_sync:
  assumes "\<not> crashed (run ce near (initial_view loggedIn online) evs)"
    and "route (run ce near (initial_view loggedIn online) evs) = Some a"
  shows "currentCanvasRef (run ce near (initial_view loggedIn online) evs)
    = (Str a, Arr (elements (board (run ce near (initial_view loggedIn online) evs))))"
proof (cases evs rule: rev_cases)
  case Nil
  then show ?thesis using assms(2) by (simp add: run_def initial_view_def)
next
  case (snoc evs' ev)
  then show ?thesis using assms step_in_sync by (simp add: run_snoc)
qed

lemma navigate_switch:
  assumes nc: "\<not> crashed v" and r: "route v = Some a" and a: "a \<noteq> []" and b: "b \<noteq> []"
    and ab: "b \<noteq> a" and ref: "currentCanvasRef v = (Str a, Arr es)"
  shows "\<exists>tail. trace (step ce near v (Navigate (Some b))) =
       trace v @ [Emit ''drawingUpdate'' (Obj [(''canvasId'', Str a), (''elements'', Arr es)]),
                  Dispatched (SET_CANVAS_ELEMENTS []),
                  Dispatched (SET_HISTORY (Some [Arr []]))] @ tail \<and>
       filter is_broadcast tail = [] \<and>
       elements (board (step ce near v (Navigate (Some b)))) = [] \<and>
       currentCanvasRef (step ce near v (Navigate (Some b))) = (Str b, Arr [])"
proof (cases "socketInstance v \<noteq> None \<and> connected v")
  case True
  have "trace (step ce near v (Navigate (Some b))) =
       trace v @ [Emit ''drawingUpdate'' (Obj [(''canvasId'', Str a), (''elements'', Arr es)]),
                  Dispatched (SET_CANVAS_ELEMENTS []),
                  Dispatched (SET_HISTORY (Some [Arr []]))]
         @ [SetTimeout 300 b, Dispatched (SET_CANVAS_ELEMENTS []),
            Dispatched (SET_HISTORY (Some [Arr []]))] \<and>
       elements (board (step ce near v (Navigate (Some b)))) = [] \<and>
       currentCanvasRef (step ce near v (Navigate (Some b))) = (Str b, Arr [])"
    using nc r a b ab ref True
    by (simp add: step_def navigate_def socket_effect_def load_effect_def Let_def
        set_elements_run set_history_run emit_def joinCanvasRoom_def rerender_def
        ref_sync_effect_def)
  then show ?thesis by (intro exI [of _ "[SetTimeout 300 b, Dispatched (SET_CANVAS_ELEMENTS []),
            Dispatched (SET_HISTORY (Some [Arr []]))]"]) simp
next
  case False
  have "trace (step ce near v (Navigate (Some b))) =
       trace v @ [Emit ''drawingUpdate'' (Obj [(''canvasId'', Str a), (''elements'', Arr es)]),
                  Dispatched (SET_CANVAS_ELEMENTS []),
                  Dispatched (SET_HISTORY (Some [Arr []]))]
         @ [Dispatched (SET_CANVAS_ELEMENTS []),
            Dispatched (SET_HISTORY (Some [Arr []]))] \<and>
       elements (board (step ce near v (Navigate (Some b)))) = [] \<and>
       currentCanvasRef (step ce near v (Navigate (Some b))) = (Str b, Arr [])"
    using nc r a b ab ref False
    by (simp add: step_def navigate_def socket_effect_def load_effect_def Let_def
        set_elements_run set_history_run emit_def joinCanvasRoom_def rerender_def
        ref_sync_effect_def)
  then show ?thesis by (intro exI [of _ "[Dispatched (SET_CANVAS_ELEMENTS []),
            Dispatched (SET_HISTORY (Some [Arr []]))]"]) simp
qed

text \<open>
  Claim C9: in every state the component reaches on a canvas A and is still up, a change
  of the canvas identity to another canvas B first emits one \<^verbatim>\<open>drawingUpdate\<close> tagged
  with A that carries the live elements of that moment, then dispatches the clearing of
  the elements and of the history; nothing else of that change is a \<^verbatim>\<open>drawingUpdate\<close>,
  and afterwards the collection is empty and the ref holds B.
\<close>

theorem switch_broadcasts_previous_canvas:
  assumes "v = run ce near (initial_view loggedIn online) evs"
    and "\<not> crashed v" and "route v = Some a" and "a \<noteq> []" and "b \<noteq> []" and "b \<noteq> a"
  shows "\<exists>tail. trace (step ce near v (Navigate (Some b))) =
       trace v @ [Emit ''drawingUpdate''
                    (Obj [(''canvasId'', Str a), (''elements'', Arr (elements (board v)))]),
                  Dispatched (SET_CANVAS_ELEMENTS []),
                  Dispatched (SET_HISTORY (Some [Arr []]))] @ tail \<and>
       filter is_broadcast tail = [] \<and>
       elements (board (step ce near v (Navigate (Some b)))) = [] \<and>
       currentCanvasRef (step ce near v (Navigate (Some b))) = (Str b, Arr [])"
proof -
  have "currentCanvasRef v = (Str a, Arr (elements (board v)))"
    using run_in_sync [of ce near loggedIn online evs a] assms(1,2,3) by simp
  from navigate_switch [OF assms(2,3,4,5,6) this] show ?thesis .
qed

text \<open>The theorem at a stroke begun on canvas A and a change to canvas B.\<close>

theorem switch_broadcasts_previous_canvas_witness:
  "\<not> crashed drawing_view \<and> route drawing_view = Some ''canvasA''
   \<and> elements (board drawing_view) =
       [Obj [(''id'', Num 0), (''points'', Arr [Obj [(''x'', Num 5), (''y'', Num 6)]]),
             (''type'', Str BRUSH), (''stroke'', Str ''black''), (''fill'', Undefined),
             (''size'', Num 4)]]
   \<and> history (board drawing_view) = Some [Arr [Arr []]]
   \<and> (\<exists>tail. trace (step example_createElement example_near drawing_view
                      (Navigate (Some ''canvasB''))) =
       trace drawing_view
       @ [Emit ''drawingUpdate''
            (Obj [(''canvasId'', Str ''canvasA''),
                  (''elements'', Arr (elements (board drawing_view)))]),
          Dispatched (SET_CANVAS_ELEMENTS []),
          Dispatched (SET_HISTORY (Some [Arr []]))] @ tail \<and>
       filter is_broadcast tail = [] \<and>
       elements (board (step example_createElement example_near drawing_view
                          (Navigate (Some ''canvasB'')))) = [] \<and>
       currentCanvasRef (step example_createElement example_near drawing_view
                          (Navigate (Some ''canvasB''))) = (Str ''canvasB'', Arr []))"
proof -
  have d: "drawing_view =
     run example_createElement example_near (initial_view True True)
       [Navigate (Some ''canvasA''),
        MouseDown (Num 1) (Num 2) (Str ''black'') Undefined (Num 4),
        MouseMove (Num 5) (Num 6)]"
    by (rule drawing_view_def)
  have c: "\<not> crashed drawing_view" by code_simp
  have r: "route drawing_view = Some ''canvasA''" by code_simp
  have e: "elements (board drawing_view) =
       [Obj [(''id'', Num 0), (''points'', Arr [Obj [(''x'', Num 5), (''y'', Num 6)]]),
             (''type'', Str BRUSH), (''stroke'', Str ''black''), (''fill'', Undefined),
             (''size'', Num 4)]]" by code_simp
  have h: "history (board drawing_view) = Some [Arr [Arr []]]" by code_simp
  have a: "''canvasA'' \<noteq> []" "''canvasB'' \<noteq> []" "''canvasB'' \<noteq> ''canvasA''" by simp_all
  show ?thesis
    using c r e h switch_broadcasts_previous_canvas [OF d c r a] by blast
qed

end
